(* ===== verification/Rust_Prelude.thy ===== *)
theory Rust_Prelude
  imports Main "HOL-Library.Word" "HOL-Library.Multiset" "HOL-Library.Char_ord"
    "HOL-Library.List_Lexorder" "HOL-Library.Product_Lexorder" "HOL-Library.AList"
begin

text \<open>
  Shared ground of the development: the machine types of the Rust sources, the parts of
  the Rust standard library that several components call (byte slices, decimal printing and
  parsing, UTF-8, \<open>Vec\<close> capacities, \<open>HashMap\<close>, \<open>BinaryHeap\<close>, clocks), the interfaces the
  components rely on as locales, and the generic lemmas about them.

  A byte (\<open>u8\<close>) is HOL's \<^typ>\<open>char\<close>, which has exactly the 256 values of eight bits and gives
  byte-string literals; \<open>u64\<close> and \<open>i64\<close> are 64-bit words, read with \<open>unat\<close> and \<open>sint\<close>;
  \<open>usize\<close> values are lengths and are natural numbers, with the bounds of a 64-bit target
  written where the code depends on them.
\<close>

named_theorems size_eval \<open>sizes and limits of the target, to compute with\<close>
named_theorems time_eval \<open>clock arithmetic, to compute with\<close>
named_theorems fs_eval \<open>file system operations, to compute with\<close>

type_synonym u8 = char
type_synonym bytes = "u8 list"
type_synonym u64 = "64 word"
type_synonym i64 = "64 word"
type_synonym usize = nat

text \<open>\<open>[T]::join\<close>.\<close>

fun join_with :: "'a list \<Rightarrow> 'a list list \<Rightarrow> 'a list" where
  "join_with sep [] = []"
| "join_with sep [x] = x"
| "join_with sep (x # y # rest) = x @ sep @ join_with sep (y # rest)"

section \<open>Generic lemmas\<close>

lemma option_case_None_eq [simp]:
  "(case x of None \<Rightarrow> None | Some y \<Rightarrow> f y) = None \<longleftrightarrow> (\<forall>y. x = Some y \<longrightarrow> f y = None)"
  by (cases x) auto

lemma option_case_Some_eq:
  "(case x of None \<Rightarrow> None | Some y \<Rightarrow> f y) = Some z \<longleftrightarrow> (\<exists>y. x = Some y \<and> f y = Some z)"
  by (cases x) auto

lemma length_drop_less [simp]: "0 < n \<Longrightarrow> xs \<noteq> [] \<Longrightarrow> length (drop n xs) < length xs"
  by (cases xs) auto

section \<open>Machine limits of the 64-bit target\<close>

definition isize_max :: nat where
  "isize_max = 2 ^ 63 - 1"

declare isize_max_def [size_eval]

definition u64_max :: nat where
  "u64_max = 2 ^ 64 - 1"

section \<open>Byte slices\<close>

abbreviation CR :: u8 where "CR \<equiv> CHR 0x0D"
abbreviation LF :: u8 where "LF \<equiv> CHR 0x0A"

definition CRLF :: bytes where
  [simp]: "CRLF = [CR, LF]"

text \<open>\<open>buf.windows(2).position(|w| w == b"\r\n")\<close>: the least index of the pair.\<close>

fun find_crlf :: "bytes \<Rightarrow> nat option" where
  "find_crlf (a # b # xs) =
     (if a = CR \<and> b = LF then Some 0 else map_option Suc (find_crlf (b # xs)))"
| "find_crlf _ = None"

text \<open>\<open>Vec::drain(..n)\<close>: the drained prefix and what stays; \<open>None\<close> is the index panic.\<close>

definition drain :: "nat \<Rightarrow> 'a list \<Rightarrow> ('a list \<times> 'a list) option" where
  "drain n xs = (if n \<le> length xs then Some (take n xs, drop n xs) else None)"

text \<open>A payload that can stand in a line ended by the pair.\<close>

definition crlf_free :: "bytes \<Rightarrow> bool" where
  "crlf_free bs \<longleftrightarrow> find_crlf bs = None"

lemma find_crlf_bound: "find_crlf bs = Some n \<Longrightarrow> n + 2 \<le> length bs"
  by (induction bs arbitrary: n rule: find_crlf.induct) (auto split: if_splits)

lemma find_crlf_append: "find_crlf bs = Some n \<Longrightarrow> find_crlf (bs @ cs) = Some n"
  by (induction bs arbitrary: n rule: find_crlf.induct) (auto split: if_splits)

lemma find_crlf_terminated: "crlf_free bs \<Longrightarrow> find_crlf (bs @ CR # LF # cs) = Some (length bs)"
  unfolding crlf_free_def
  by (induction bs rule: find_crlf.induct) (auto split: if_splits)

lemma find_crlf_no_CR: "CR \<notin> set bs \<Longrightarrow> crlf_free bs"
  unfolding crlf_free_def
  by (induction bs rule: find_crlf.induct) auto

lemma drain_length: "drain n xs = Some (ys, zs) \<Longrightarrow> length zs = length xs - n \<and> n \<le> length xs"
  by (auto simp: drain_def split: if_splits)

lemma drain_append: "drain n xs = Some (ys, zs) \<Longrightarrow> drain n (xs @ as) = Some (ys, zs @ as)"
  by (auto simp: drain_def split: if_splits)

lemma drain_prefix [simp]: "drain (length ys) (ys @ zs) = Some (ys, zs)"
  by (simp add: drain_def)

text \<open>
  \<open>memchr\<close> is a crate, so the search for a byte is a parameter of the parser. What the code
  relies on is its documented result: the index of the first occurrence, or nothing.
\<close>

definition memchr_law :: "(u8 \<Rightarrow> bytes \<Rightarrow> nat option) \<Rightarrow> bool" where
  "memchr_law mc \<longleftrightarrow>
     (\<forall>c bs. case mc c bs of
        None \<Rightarrow> c \<notin> set bs
      | Some n \<Rightarrow> n < length bs \<and> bs ! n = c \<and> c \<notin> set (take n bs))"

text \<open>A concrete function with that behaviour.\<close>

fun index_of :: "u8 \<Rightarrow> bytes \<Rightarrow> nat option" where
  "index_of c [] = None"
| "index_of c (b # bs) = (if b = c then Some 0 else map_option Suc (index_of c bs))"

lemma index_of_Some: "index_of c bs = Some n \<Longrightarrow> n < length bs \<and> bs ! n = c \<and> c \<notin> set (take n bs)"
  by (induction bs arbitrary: n) (auto split: if_splits)

lemma index_of_None: "index_of c bs = None \<longleftrightarrow> c \<notin> set bs"
  by (induction bs) auto

lemma index_of_memchr: "memchr_law index_of"
  unfolding memchr_law_def
  using index_of_Some index_of_None by (auto split: option.split)

lemma index_of_first:
  "n < length bs \<Longrightarrow> bs ! n = c \<Longrightarrow> c \<notin> set (take n bs) \<Longrightarrow> index_of c bs = Some n"
proof (induction bs arbitrary: n)
  case (Cons b bs)
  then show ?case by (cases n) auto
qed simp

text \<open>The law determines the search, so every result about the parser can use one search.\<close>

lemma memchr_law_unique: "memchr_law mc \<Longrightarrow> mc = index_of"
proof (intro ext)
  fix c bs
  assume "memchr_law mc"
  then have "case mc c bs of None \<Rightarrow> c \<notin> set bs
    | Some n \<Rightarrow> n < length bs \<and> bs ! n = c \<and> c \<notin> set (take n bs)"
    by (simp add: memchr_law_def)
  then show "mc c bs = index_of c bs"
    using index_of_None [of c bs] by (cases "mc c bs") (auto simp: index_of_first)
qed

lemma index_of_append: "index_of c bs = Some n \<Longrightarrow> index_of c (bs @ cs) = Some n"
  by (induction bs arbitrary: n) (auto split: if_splits)

lemma index_of_bound: "index_of c bs = Some n \<Longrightarrow> n < length bs"
  by (simp add: index_of_Some)

section \<open>ASCII case\<close>

definition to_ascii_lowercase :: "u8 \<Rightarrow> u8" where
  "to_ascii_lowercase c =
     (if 65 \<le> (of_char c :: nat) \<and> (of_char c :: nat) \<le> 90 then char_of (of_char c + 32 :: nat) else c)"

definition eq_ignore_ascii_case :: "bytes \<Rightarrow> bytes \<Rightarrow> bool" where
  "eq_ignore_ascii_case a b \<longleftrightarrow> map to_ascii_lowercase a = map to_ascii_lowercase b"

lemma eq_ignore_ascii_case_refl [simp]: "eq_ignore_ascii_case a a"
  by (simp add: eq_ignore_ascii_case_def)

lemma eq_ignore_ascii_case_sym: "eq_ignore_ascii_case a b \<longleftrightarrow> eq_ignore_ascii_case b a"
  by (auto simp: eq_ignore_ascii_case_def)

lemma eq_ignore_ascii_case_trans:
  "eq_ignore_ascii_case a b \<Longrightarrow> eq_ignore_ascii_case b c \<Longrightarrow> eq_ignore_ascii_case a c"
  by (simp add: eq_ignore_ascii_case_def)

section \<open>Decimal integers\<close>

text \<open>\<open>to_string\<close> of an unsigned and of a signed integer.\<close>

definition digit_char :: "nat \<Rightarrow> u8" where
  "digit_char d = ''0123456789'' ! d"

fun nat_to_string :: "nat \<Rightarrow> bytes" where
  "nat_to_string n =
     (if n < 10 then [digit_char n] else nat_to_string (n div 10) @ [digit_char (n mod 10)])"

declare nat_to_string.simps [simp del]

definition int_to_string :: "int \<Rightarrow> bytes" where
  "int_to_string i =
     (if i < 0 then CHR ''-'' # nat_to_string (nat (- i)) else nat_to_string (nat i))"

text \<open>
  \<open>str::parse::<u64>\<close> and \<open>str::parse::<i64>\<close>: an optional sign (\<open>-\<close> for the signed type only),
  at least one digit, and a value in range. The error kinds are not told apart by any caller.
\<close>

definition digit_value :: "u8 \<Rightarrow> nat option" where
  "digit_value c = (let n = of_char c in if 48 \<le> n \<and> n \<le> 57 then Some (n - 48) else None)"

fun digits_value :: "nat \<Rightarrow> bytes \<Rightarrow> nat option" where
  "digits_value acc [] = Some acc"
| "digits_value acc (c # cs) =
     (case digit_value c of None \<Rightarrow> None | Some d \<Rightarrow> digits_value (10 * acc + d) cs)"

definition parse_magnitude :: "bytes \<Rightarrow> nat option" where
  "parse_magnitude cs = (if cs = [] then None else digits_value 0 cs)"

definition parse_u64 :: "bytes \<Rightarrow> u64 option" where
  "parse_u64 cs =
     (case parse_magnitude (if cs \<noteq> [] \<and> hd cs = CHR ''+'' then tl cs else cs) of
        None \<Rightarrow> None
      | Some n \<Rightarrow> if n \<le> u64_max then Some (word_of_nat n) else None)"

definition parse_i64 :: "bytes \<Rightarrow> i64 option" where
  "parse_i64 cs =
     (if cs \<noteq> [] \<and> hd cs = CHR ''-'' then
        (case parse_magnitude (tl cs) of
           None \<Rightarrow> None
         | Some n \<Rightarrow> if n \<le> 2 ^ 63 then Some (word_of_int (- int n)) else None)
      else
        (case parse_magnitude (if cs \<noteq> [] \<and> hd cs = CHR ''+'' then tl cs else cs) of
           None \<Rightarrow> None
         | Some n \<Rightarrow> if n \<le> isize_max then Some (word_of_nat n) else None))"

lemma less_ten_cases:
  "n < (10::nat) \<Longrightarrow> n = 0 \<or> n = 1 \<or> n = 2 \<or> n = 3 \<or> n = 4 \<or> n = 5 \<or> n = 6 \<or> n = 7 \<or> n = 8 \<or> n = 9"
  by auto

lemma digit_value_digit_char [simp]: "d < 10 \<Longrightarrow> digit_value (digit_char d) = Some d"
  by (drule less_ten_cases) (auto simp: digit_value_def digit_char_def)

lemma digit_char_neq [simp]:
  "d < 10 \<Longrightarrow> digit_char d \<noteq> CHR ''-''" "d < 10 \<Longrightarrow> digit_char d \<noteq> CHR ''+''"
  "d < 10 \<Longrightarrow> digit_char d \<noteq> CR" "d < 10 \<Longrightarrow> digit_char d \<noteq> LF"
  by (drule less_ten_cases, auto simp: digit_char_def)+

lemma digits_value_append:
  "digits_value acc (xs @ ys) =
     (case digits_value acc xs of None \<Rightarrow> None | Some n \<Rightarrow> digits_value n ys)"
  by (induction xs arbitrary: acc) (auto split: option.split)

lemma digits_value_nat_to_string [simp]: "digits_value 0 (nat_to_string n) = Some n"
proof (induction n rule: nat_to_string.induct)
  case (1 n)
  then show ?case
    by (subst nat_to_string.simps) (auto simp: digits_value_append)
qed

lemma nat_to_string_not_Nil [simp]: "nat_to_string n \<noteq> []"
  by (subst nat_to_string.simps) simp

lemma set_nat_to_string: "set (nat_to_string n) \<subseteq> digit_char ` {..<10}"
proof (induction n rule: nat_to_string.induct)
  case (1 n)
  then show ?case by (subst nat_to_string.simps) auto
qed

lemma nat_to_string_notin [simp]:
  "CHR ''-'' \<notin> set (nat_to_string n)" "CHR ''+'' \<notin> set (nat_to_string n)"
  "CR \<notin> set (nat_to_string n)"
proof -
  have *: "c \<notin> set (nat_to_string n)" if "\<And>d. d < 10 \<Longrightarrow> digit_char d \<noteq> c" for c
    using set_nat_to_string [of n] that by fastforce
  show "CHR ''-'' \<notin> set (nat_to_string n)" "CHR ''+'' \<notin> set (nat_to_string n)"
    "CR \<notin> set (nat_to_string n)"
    by (rule *; simp)+
qed

lemma hd_nat_to_string [simp]:
  "hd (nat_to_string n) \<noteq> CHR ''-''" "hd (nat_to_string n) \<noteq> CHR ''+''"
  using nat_to_string_notin [of n] hd_in_set [of "nat_to_string n"] by force+

lemma parse_magnitude_nat_to_string [simp]: "parse_magnitude (nat_to_string n) = Some n"
  by (simp add: parse_magnitude_def)

lemma parse_i64_nat_to_string: "n \<le> isize_max \<Longrightarrow> parse_i64 (nat_to_string n) = Some (word_of_nat n)"
  by (simp add: parse_i64_def)

lemma parse_u64_nat_to_string: "n \<le> u64_max \<Longrightarrow> parse_u64 (nat_to_string n) = Some (word_of_nat n)"
  by (simp add: parse_u64_def)

lemma sint_range_i64: "- (2 ^ 63) \<le> sint (w :: i64)" "sint (w :: i64) < 2 ^ 63"
  using sint_ge [of w] sint_lt [of w] by simp_all

text \<open>Printing a signed 64-bit value and parsing it back gives the value: all of \<open>i64\<close>.\<close>

lemma parse_i64_int_to_string [simp]: "parse_i64 (int_to_string (sint (w :: i64))) = Some w"
proof (cases "sint w < 0")
  case True
  then have "nat (- sint w) \<le> 2 ^ 63"
    using sint_range_i64 [of w] by simp
  then show ?thesis
    using True by (simp add: int_to_string_def parse_i64_def)
next
  case False
  then have "nat (sint w) \<le> isize_max"
    using sint_range_i64 [of w] by (simp add: isize_max_def nat_le_iff)
  then show ?thesis
    using False by (simp add: int_to_string_def parse_i64_nat_to_string)
qed

lemma CR_notin_int_to_string [simp]: "CR \<notin> set (int_to_string i)"
  by (simp add: int_to_string_def)

end
