(* ===== verification/Rust_Std.thy ===== *)
theory Rust_Std
  imports Rust_Prelude
begin

text \<open>
  The library types the components are built from: UTF-8 strings and their whitespace
  splitting, vectors with a capacity, hash maps, binary heaps and instants; the interfaces
  of the map and of the heap as locales with their interpretations; and reachability for the
  step relations of the concurrent components.
\<close>

section \<open>UTF-8\<close>

text \<open>
  \<open>str::from_utf8\<close> accepts the well-formed sequences of the Unicode standard: no overlong
  forms, no surrogates, nothing above U+10FFFF. \<open>utf8_chars\<close> cuts a byte string into the
  encodings of its characters, or fails; a Rust \<open>String\<close> is a byte string it accepts.
\<close>

definition utf8_cont :: "u8 \<Rightarrow> bool" where
  "utf8_cont c \<longleftrightarrow> (let n = (of_char c :: nat) in 0x80 \<le> n \<and> n \<le> 0xBF)"

definition utf8_two :: "u8 \<Rightarrow> u8 \<Rightarrow> bool" where
  "utf8_two a b \<longleftrightarrow> (let n = (of_char a :: nat) in 0xC2 \<le> n \<and> n \<le> 0xDF) \<and> utf8_cont b"

definition utf8_three :: "u8 \<Rightarrow> u8 \<Rightarrow> u8 \<Rightarrow> bool" where
  "utf8_three a b c \<longleftrightarrow>
     (let n = (of_char a :: nat); m = (of_char b :: nat) in
        n = 0xE0 \<and> 0xA0 \<le> m \<and> m \<le> 0xBF \<or>
        0xE1 \<le> n \<and> n \<le> 0xEC \<and> utf8_cont b \<or>
        n = 0xED \<and> 0x80 \<le> m \<and> m \<le> 0x9F \<or>
        0xEE \<le> n \<and> n \<le> 0xEF \<and> utf8_cont b) \<and> utf8_cont c"

definition utf8_four :: "u8 \<Rightarrow> u8 \<Rightarrow> u8 \<Rightarrow> u8 \<Rightarrow> bool" where
  "utf8_four a b c d \<longleftrightarrow>
     (let n = (of_char a :: nat); m = (of_char b :: nat) in
        n = 0xF0 \<and> 0x90 \<le> m \<and> m \<le> 0xBF \<or>
        0xF1 \<le> n \<and> n \<le> 0xF3 \<and> utf8_cont b \<or>
        n = 0xF4 \<and> 0x80 \<le> m \<and> m \<le> 0x8F) \<and> utf8_cont c \<and> utf8_cont d"

text \<open>The width of the well-formed character a byte string starts with; 0 when there is none.\<close>

fun utf8_width :: "bytes \<Rightarrow> nat" where
  "utf8_width (a # xs) =
     (if (of_char a :: nat) < 0x80 then 1 else
      case xs of
        [b] \<Rightarrow> if utf8_two a b then 2 else 0
      | [b, c] \<Rightarrow> if utf8_two a b then 2 else if utf8_three a b c then 3 else 0
      | b # c # d # _ \<Rightarrow>
          if utf8_two a b then 2 else if utf8_three a b c then 3
          else if utf8_four a b c d then 4 else 0
      | [] \<Rightarrow> 0)"
| "utf8_width [] = 0"

function utf8_chars :: "bytes \<Rightarrow> bytes list option" where
  "utf8_chars [] = Some []"
| "utf8_chars (a # xs) =
     (let n = utf8_width (a # xs) in
      if n = 0 then None
      else map_option ((#) (take n (a # xs))) (utf8_chars (drop n (a # xs))))"
  by pat_completeness auto
termination
  by (relation "measure length") auto

definition is_utf8 :: "bytes \<Rightarrow> bool" where
  "is_utf8 bs \<longleftrightarrow> utf8_chars bs \<noteq> None"

lemma concat_utf8_chars: "utf8_chars bs = Some cs \<Longrightarrow> concat cs = bs"
proof (induction bs arbitrary: cs rule: utf8_chars.induct)
  case (2 a xs)
  let ?n = "utf8_width (a # xs)"
  from "2.prems" obtain ds where "utf8_chars (drop ?n (a # xs)) = Some ds"
    and n: "?n \<noteq> 0" and cs: "cs = take ?n (a # xs) # ds"
    by (auto simp: Let_def simp del: utf8_width.simps split: if_splits)
  with "2.IH" have "concat ds = drop ?n (a # xs)"
    by blast
  then show ?case
    unfolding cs by (simp only: concat.simps append_take_drop_id)
qed simp

lemma is_utf8_ascii: "\<forall>c \<in> set bs. (of_char c :: nat) < 0x80 \<Longrightarrow> is_utf8 bs"
  unfolding is_utf8_def by (induction bs) auto

text \<open>The code point of one encoded character, and \<open>char::is_whitespace\<close> (Unicode White\_Space).\<close>

fun code_point :: "bytes \<Rightarrow> nat" where
  "code_point [a] = of_char a"
| "code_point [a, b] = (of_char a - 0xC0) * 64 + (of_char b - 0x80)"
| "code_point [a, b, c] = ((of_char a - 0xE0) * 64 + (of_char b - 0x80)) * 64 + (of_char c - 0x80)"
| "code_point [a, b, c, d] =
     (((of_char a - 0xF0) * 64 + (of_char b - 0x80)) * 64 + (of_char c - 0x80)) * 64
       + (of_char d - 0x80)"
| "code_point _ = 0"

definition is_whitespace :: "bytes \<Rightarrow> bool" where
  "is_whitespace ch \<longleftrightarrow>
     (let n = code_point ch in
        0x09 \<le> n \<and> n \<le> 0x0D \<or> n = 0x20 \<or> n = 0x85 \<or> n = 0xA0 \<or> n = 0x1680 \<or>
        0x2000 \<le> n \<and> n \<le> 0x200A \<or> n = 0x2028 \<or> n = 0x2029 \<or> n = 0x202F \<or> n = 0x205F \<or> n = 0x3000)"

text \<open>\<open>str::split_whitespace\<close>: the maximal non-empty runs of non-white characters.\<close>

fun split_ws :: "bytes \<Rightarrow> bytes list \<Rightarrow> bytes list" where
  "split_ws cur [] = (if cur = [] then [] else [cur])"
| "split_ws cur (ch # chs) =
     (if is_whitespace ch then (if cur = [] then [] else [cur]) @ split_ws [] chs
      else split_ws (cur @ ch) chs)"

definition split_whitespace :: "bytes list \<Rightarrow> bytes list" where
  "split_whitespace chs = split_ws [] chs"

lemma split_ws_not_Nil: "[] \<notin> set (split_ws cur chs)"
  by (induction cur chs rule: split_ws.induct) auto

section \<open>Vectors with a capacity\<close>

text \<open>
  The parser reads \<open>Vec::capacity\<close>, so a vector is its allocated capacity and its items.
  \<open>with_capacity\<close> of the standard library allocates exactly the request and panics
  (\<open>None\<close>) when the bytes exceed \<open>isize::MAX\<close>; \<open>push\<close> on a full vector doubles it.
\<close>

record 'a Vec =
  capacity :: usize
  items :: "'a list"

definition with_capacity :: "usize \<Rightarrow> usize \<Rightarrow> 'a Vec option" where
  "with_capacity elem_size n =
     (if n * elem_size \<le> isize_max then Some \<lparr>capacity = n, items = []\<rparr> else None)"

definition vec_push :: "'a Vec \<Rightarrow> 'a \<Rightarrow> 'a Vec" where
  "vec_push v x =
     (if length (items v) < capacity v then v\<lparr>items := items v @ [x]\<rparr>
      else \<lparr>capacity = max 4 (2 * capacity v), items = items v @ [x]\<rparr>)"

definition vec_full :: "'a Vec \<Rightarrow> bool" where
  "vec_full v \<longleftrightarrow> capacity v - length (items v) = 0"

lemma items_vec_push [simp]: "items (vec_push v x) = items v @ [x]"
  by (simp add: vec_push_def)

lemma capacity_vec_push [simp]: "length (items v) < capacity v \<Longrightarrow> capacity (vec_push v x) = capacity v"
  by (simp add: vec_push_def)

section \<open>Hash maps\<close>

text \<open>
  A \<open>HashMap\<close> is an association list with distinct keys; the list order stands for the
  unspecified iteration order. The interface says what the store relies on.
\<close>

locale hash_map =
  fixes empty :: "'m"
    and get :: "'k \<Rightarrow> 'm \<Rightarrow> 'v option"
    and insert :: "'k \<Rightarrow> 'v \<Rightarrow> 'm \<Rightarrow> 'm"
    and remove :: "'k \<Rightarrow> 'm \<Rightarrow> 'm"
    and iter :: "'m \<Rightarrow> ('k \<times> 'v) list"
    and invar :: "'m \<Rightarrow> bool"
  assumes invar_empty: "invar empty"
    and get_empty: "get k empty = None"
    and invar_insert: "invar m \<Longrightarrow> invar (insert k v m)"
    and get_insert: "invar m \<Longrightarrow> get k' (insert k v m) = (if k' = k then Some v else get k' m)"
    and invar_remove: "invar m \<Longrightarrow> invar (remove k m)"
    and get_remove: "invar m \<Longrightarrow> get k' (remove k m) = (if k' = k then None else get k' m)"
    and iter_distinct: "invar m \<Longrightarrow> distinct (map fst (iter m))"
    and iter_get: "invar m \<Longrightarrow> map_of (iter m) k = get k m"
begin

lemma iter_mem: "invar m \<Longrightarrow> (k, v) \<in> set (iter m) \<longleftrightarrow> get k m = Some v"
  using iter_distinct iter_get by (metis map_of_eq_Some_iff)

lemma insert_remove_get:
  "invar m \<Longrightarrow> get k' (insert k v (remove k m)) = (if k' = k then Some v else get k' m)"
  by (simp add: get_insert get_remove invar_remove)

lemma fold_remove_invar: "invar m \<Longrightarrow> invar (fold (\<lambda>k m. if P k m then remove k m else m) ks m)"
  by (induction ks arbitrary: m) (auto simp: invar_remove)

lemma fold_remove_get:
  assumes "invar m" and "\<And>k m. P k m \<longleftrightarrow> Q (get k m)" and "\<not> Q None"
  shows "get k' (fold (\<lambda>k m. if P k m then remove k m else m) ks m) =
    (if k' \<in> set ks \<and> Q (get k' m) then None else get k' m)"
  using assms(1)
proof (induction ks arbitrary: m)
  case (Cons k ks)
  then show ?case
    using assms(2,3) by (auto simp: invar_remove get_remove)
qed simp

lemma fold_insert_invar: "invar m \<Longrightarrow> invar (fold (\<lambda>(k, v). insert k v) kvs m)"
  by (induction kvs arbitrary: m) (auto simp: invar_insert)

lemma fold_insert_get:
  assumes "invar m" and "distinct (map fst kvs)"
  shows "get k (fold (\<lambda>(k, v). insert k v) kvs m) =
    (case map_of kvs k of None \<Rightarrow> get k m | Some v \<Rightarrow> Some v)"
  using assms
proof (induction kvs arbitrary: m)
  case (Cons kv kvs)
  obtain k0 v0 where kv: "kv = (k0, v0)" by fastforce
  with Cons.prems have "map_of kvs k0 = None"
    by (simp add: map_of_eq_None_iff)
  with Cons show ?case
    by (cases "k = k0") (simp_all add: kv invar_insert get_insert split: option.split)
qed simp

end

type_synonym ('k, 'v) HashMap = "('k \<times> 'v) list"

definition hm_new :: "('k, 'v) HashMap" where
  "hm_new = []"

definition hm_get :: "'k \<Rightarrow> ('k, 'v) HashMap \<Rightarrow> 'v option" where
  "hm_get k m = map_of m k"

definition hm_insert :: "'k \<Rightarrow> 'v \<Rightarrow> ('k, 'v) HashMap \<Rightarrow> ('k, 'v) HashMap" where
  "hm_insert k v m = AList.update k v m"

definition hm_remove :: "'k \<Rightarrow> ('k, 'v) HashMap \<Rightarrow> ('k, 'v) HashMap" where
  "hm_remove k m = AList.delete k m"

definition hm_iter :: "('k, 'v) HashMap \<Rightarrow> ('k \<times> 'v) list" where
  "hm_iter m = m"

definition hm_invar :: "('k, 'v) HashMap \<Rightarrow> bool" where
  "hm_invar m \<longleftrightarrow> distinct (map fst m)"

definition hm_collect :: "('k \<times> 'v) list \<Rightarrow> ('k, 'v) HashMap" where
  "hm_collect kvs = fold (\<lambda>(k, v). hm_insert k v) kvs hm_new"

interpretation hm: hash_map hm_new hm_get hm_insert hm_remove hm_iter hm_invar
  by unfold_locales
    (auto simp: hm_new_def hm_get_def hm_insert_def hm_remove_def hm_iter_def hm_invar_def
      update_conv' delete_conv' distinct_update distinct_delete)

lemmas hm_laws [simp] = hm.invar_empty hm.get_empty hm.invar_insert hm.get_insert
  hm.invar_remove hm.get_remove hm.iter_get

lemma hm_collect_invar [simp]: "hm_invar (hm_collect kvs)"
  unfolding hm_collect_def by (rule hm.fold_insert_invar) simp

lemma hm_collect_get: "distinct (map fst kvs) \<Longrightarrow> hm_get k (hm_collect kvs) = map_of kvs k"
  unfolding hm_collect_def by (subst hm.fold_insert_get) (auto split: option.split)

section \<open>Binary heaps\<close>

text \<open>
  \<open>BinaryHeap<Reverse<(Instant, Key)>>\<close> is a priority queue whose \<open>peek\<close> and \<open>pop\<close> give the
  least pair. It is kept as a sorted list; the interface relates it to its multiset.
\<close>

locale min_heap =
  fixes empty :: "'q"
    and push :: "'a::linorder \<Rightarrow> 'q \<Rightarrow> 'q"
    and peek :: "'q \<Rightarrow> 'a option"
    and pop :: "'q \<Rightarrow> 'q"
    and elems :: "'q \<Rightarrow> 'a multiset"
    and invar :: "'q \<Rightarrow> bool"
  assumes invar_empty: "invar empty"
    and elems_empty: "elems empty = {#}"
    and invar_push: "invar q \<Longrightarrow> invar (push x q)"
    and elems_push: "invar q \<Longrightarrow> elems (push x q) = add_mset x (elems q)"
    and peek_None: "invar q \<Longrightarrow> peek q = None \<longleftrightarrow> elems q = {#}"
    and peek_min: "invar q \<Longrightarrow> peek q = Some x \<Longrightarrow> x \<in># elems q \<and> (\<forall>y \<in># elems q. x \<le> y)"
    and invar_pop: "invar q \<Longrightarrow> invar (pop q)"
    and elems_pop: "invar q \<Longrightarrow> peek q = Some x \<Longrightarrow> elems (pop q) = elems q - {#x#}"
begin

lemma pop_size: "invar q \<Longrightarrow> peek q = Some x \<Longrightarrow> size (elems (pop q)) < size (elems q)"
  using elems_pop peek_min by (metis size_Diff1_less)

lemma pop_add: "invar q \<Longrightarrow> peek q = Some x \<Longrightarrow> elems q = add_mset x (elems (pop q))"
  using elems_pop peek_min by simp

end

definition heap_new :: "'a::linorder list" where
  "heap_new = []"

definition heap_push :: "'a::linorder \<Rightarrow> 'a list \<Rightarrow> 'a list" where
  "heap_push x q = insort x q"

definition heap_peek :: "'a::linorder list \<Rightarrow> 'a option" where
  "heap_peek q = (case q of [] \<Rightarrow> None | x # _ \<Rightarrow> Some x)"

definition heap_pop :: "'a::linorder list \<Rightarrow> 'a list" where
  "heap_pop q = tl q"

interpretation hp: min_heap heap_new heap_push heap_peek heap_pop mset sorted
proof (unfold_locales, goal_cases)
  case (3 q x) then show ?case by (simp add: heap_push_def sorted_insort)
next
  case (6 q x) then show ?case by (auto simp: heap_peek_def split: list.splits)
qed (auto simp: heap_new_def heap_push_def heap_peek_def heap_pop_def sorted_tl split: list.splits)

lemmas hp_laws [simp] = hp.invar_empty hp.elems_empty hp.invar_push hp.elems_push hp.invar_pop

lemma set_heap_push [simp]: "set (heap_push x q) = insert x (set q)"
  by (simp add: heap_push_def set_insort_key)

section \<open>I/O errors\<close>

text \<open>\<open>std::io::Error\<close> by its kind; the code tells \<open>NotFound\<close> from all others.\<close>

datatype io_error = NotFound | OtherIo nat

section \<open>Instants and durations\<close>

text \<open>
  An \<open>Instant\<close> and a \<open>Duration\<close> count nanoseconds. On the Unix targets the seconds of an
  instant are an \<open>i64\<close>, so adding a duration fails (\<open>None\<close>; the \<open>+\<close> operator panics) once the
  sum reaches $2^{63}$ seconds.
\<close>

type_synonym Instant = nat
type_synonym Duration = nat

definition duration_from_secs :: "u64 \<Rightarrow> Duration" where
  "duration_from_secs n = unat n * 10 ^ 9"

definition duration_from_millis :: "nat \<Rightarrow> Duration" where
  "duration_from_millis n = n * 10 ^ 6"

definition as_secs :: "Duration \<Rightarrow> nat" where
  "as_secs d = d div 10 ^ 9"

definition as_millis :: "Duration \<Rightarrow> nat" where
  "as_millis d = d div 10 ^ 6"

definition instant_limit :: nat where
  "instant_limit = 2 ^ 63 * 10 ^ 9"

definition checked_add :: "Instant \<Rightarrow> Duration \<Rightarrow> Instant option" where
  "checked_add t d = (if t + d < instant_limit then Some (t + d) else None)"

declare duration_from_secs_def [time_eval] instant_limit_def [time_eval] checked_add_def [time_eval]

definition duration_since :: "Instant \<Rightarrow> Instant \<Rightarrow> Duration" where
  "duration_since later earlier = later - earlier"

section \<open>Reachable states\<close>

inductive reach :: "('s \<Rightarrow> bool) \<Rightarrow> ('s \<Rightarrow> 's \<Rightarrow> bool) \<Rightarrow> 's \<Rightarrow> bool"
  for init :: "'s \<Rightarrow> bool" and step :: "'s \<Rightarrow> 's \<Rightarrow> bool" where
  reach_init: "init s \<Longrightarrow> reach init step s"
| reach_step: "reach init step s \<Longrightarrow> step s t \<Longrightarrow> reach init step t"

locale inductive_invariant =
  fixes init :: "'s \<Rightarrow> bool" and step :: "'s \<Rightarrow> 's \<Rightarrow> bool" and inv :: "'s \<Rightarrow> bool"
  assumes inv_init: "init s \<Longrightarrow> inv s"
    and inv_step: "inv s \<Longrightarrow> step s t \<Longrightarrow> inv t"
begin

lemma inv_reach: "reach init step s \<Longrightarrow> inv s"
  by (induction rule: reach.induct) (auto intro: inv_init inv_step)

lemma inv_steps: "inv s \<Longrightarrow> step\<^sup>*\<^sup>* s t \<Longrightarrow> inv t"
  by (rotate_tac, induction rule: rtranclp_induct) (auto intro: inv_step)

end

section \<open>Simulation\<close>

text \<open>
  A transition system is simulated by another one when every step is matched by a step of the other or by
  none; then the other can follow every execution.
\<close>

locale forward_simulation =
  fixes step :: "'s \<Rightarrow> 's \<Rightarrow> bool" and spec_step :: "'a \<Rightarrow> 'a \<Rightarrow> bool" and matches :: "'s \<Rightarrow> 'a \<Rightarrow> bool"
  assumes simulate: "matches s a \<Longrightarrow> step s t \<Longrightarrow> matches t a \<or> (\<exists>b. spec_step a b \<and> matches t b)"
begin

lemma simulate_steps:
  assumes "step\<^sup>*\<^sup>* s t" "matches s a"
  shows "\<exists>b. spec_step\<^sup>*\<^sup>* a b \<and> matches t b"
  using assms
proof (induction rule: rtranclp_induct)
  case (step t u)
  then obtain b where b: "spec_step\<^sup>*\<^sup>* a b" "matches t b" by blast
  from simulate [OF b(2) step.hyps(2)] b show ?case by (blast intro: rtranclp.rtrancl_into_rtrancl)
qed blast

end

section \<open>Refinement in time\<close>

text \<open>
  A machine whose steps depend on the clock, run over a list of timed events. When a relation between
  two such machines is kept by every event and by the passing of time, and related machines answer
  alike, they answer alike over every list of events whose times do not decrease.
\<close>

fun run_timed :: "('s \<Rightarrow> nat \<Rightarrow> 'e \<Rightarrow> 'o list \<times> 's) \<Rightarrow> 's \<Rightarrow> (nat \<times> 'e) list \<Rightarrow> 'o list \<times> 's" where
  "run_timed step s [] = ([], s)"
| "run_timed step s ((now, e) # es) =
     (fst (step s now e) @ fst (run_timed step (snd (step s now e)) es), snd (run_timed step (snd (step s now e)) es))"

locale timed_refinement =
  fixes conc :: "'s \<Rightarrow> nat \<Rightarrow> 'e \<Rightarrow> 'o list \<times> 's"
    and abst :: "'m \<Rightarrow> nat \<Rightarrow> 'e \<Rightarrow> 'o list \<times> 'm"
    and rel :: "'s \<Rightarrow> 'm \<Rightarrow> nat \<Rightarrow> bool"
  assumes rel_later: "rel s m t \<Longrightarrow> t \<le> t' \<Longrightarrow> rel s m t'"
    and rel_out: "rel s m now \<Longrightarrow> fst (conc s now e) = fst (abst m now e)"
    and rel_next: "rel s m now \<Longrightarrow> rel (snd (conc s now e)) (snd (abst m now e)) now"
begin

lemma run_timed_refines:
  "rel s m t0 \<Longrightarrow> sorted (t0 # map fst es @ [t1]) \<Longrightarrow>
     fst (run_timed conc s es) = fst (run_timed abst m es) \<and>
     rel (snd (run_timed conc s es)) (snd (run_timed abst m es)) t1"
proof (induction es arbitrary: s m t0)
  case Nil
  then show ?case by (simp add: rel_later)
next
  case (Cons te es)
  obtain now e where te: "te = (now, e)" by fastforce
  have "rel s m now" and later: "sorted (now # map fst es @ [t1])"
    using Cons.prems te rel_later by (auto simp: sorted_append)
  with Cons.IH [OF rel_next later] te rel_out show ?case by simp
qed

lemma run_timed_answers:
  assumes "rel s m t0" "sorted (t0 # map fst es)"
  shows "fst (run_timed conc s es) = fst (run_timed abst m es)"
proof -
  have "x \<le> t0 + sum_list (map fst es)" if "x \<in> set (t0 # map fst es)" for x
    using that member_le_sum_list [of x "map fst es"] by force
  with assms(2) have "sorted (t0 # map fst es @ [t0 + sum_list (map fst es)])"
    by (simp add: sorted_append)
  with run_timed_refines [OF assms(1)] show ?thesis by blast
qed

end

section \<open>Incremental decoders\<close>

text \<open>
  A decoder takes the next piece of a stream and gives its new state, the values completed by
  the piece and the error that ended decoding, if any; \<open>None\<close> is a panic. \<open>feed_chunks\<close> is its
  client: it hands over one piece after the other and stops at the first error.
\<close>

fun feed_chunks ::
  "('s \<Rightarrow> 'i list \<Rightarrow> ('s \<times> 'o list \<times> 'e option) option) \<Rightarrow> 's \<Rightarrow> 'i list list \<Rightarrow> ('o list \<times> 'e option) option"
where
  "feed_chunks consume s [] = Some ([], None)"
| "feed_chunks consume s (c # cs) =
     (case consume s c of
        None \<Rightarrow> None
      | Some (s1, o1, Some e) \<Rightarrow> Some (o1, Some e)
      | Some (s1, o1, None) \<Rightarrow> map_option (\<lambda>(o2, e). (o1 @ o2, e)) (feed_chunks consume s1 cs))"

locale incremental_decoder =
  fixes consume :: "'s \<Rightarrow> 'i list \<Rightarrow> ('s \<times> 'o list \<times> 'e option) option"
    and settled :: "'s \<Rightarrow> bool"
  assumes consume_Nil: "settled s \<Longrightarrow> consume s [] = Some (s, [], None)"
    and consume_settled: "consume s xs = Some (s1, o1, None) \<Longrightarrow> settled s1"
    and consume_more: "consume s xs = Some (s1, o1, None) \<Longrightarrow>
      consume s (xs @ ys) = map_option (\<lambda>(s2, o2, e). (s2, o1 @ o2, e)) (consume s1 ys)"
    and consume_halt: "consume s xs = Some (s1, o1, Some e) \<Longrightarrow>
      \<exists>s2. consume s (xs @ ys) = Some (s2, o1, Some e)"
    and consume_panic: "consume s xs = None \<Longrightarrow> consume s (xs @ ys) = None"
begin

lemma feed_chunks_concat:
  "settled s \<Longrightarrow> feed_chunks consume s cs = map_option snd (consume s (concat cs))"
proof (induction cs arbitrary: s)
  case Nil
  then show ?case by (simp add: consume_Nil)
next
  case (Cons c cs)
  consider "consume s c = None" | s1 o1 e where "consume s c = Some (s1, o1, Some e)"
    | s1 o1 where "consume s c = Some (s1, o1, None)"
    by (metis not_Some_eq prod_cases3)
  then show ?case
  proof cases
    case 1
    then show ?thesis by (simp add: consume_panic)
  next
    case 2
    then obtain s2 where "consume s (c @ concat cs) = Some (s2, o1, Some e)"
      using consume_halt by blast
    with 2 show ?thesis by simp
  next
    case 3
    with Cons.IH [OF consume_settled [OF 3]] show ?thesis
      by (simp add: consume_more [OF 3] option.map_comp o_def case_prod_unfold)
  qed
qed

text \<open>Two ways to cut the same stream are decoded alike.\<close>

lemma feed_chunks_cut:
  "settled s \<Longrightarrow> concat cs = concat ds \<Longrightarrow> feed_chunks consume s cs = feed_chunks consume s ds"
  by (simp add: feed_chunks_concat)

end

end
