(* ===== verification/Resp_Frame.thy ===== *)
theory Resp_Frame
  imports Rust_Std
begin

text \<open>
  Frames of the wire protocol (\<open>src/src/frame.rs\<close>): the value a request or a response is, and
  its encoding. Strings are the bytes of a Rust \<open>String\<close>; \<open>wf_frame\<close> states what the Rust types
  and the line format ask of a frame.
\<close>

datatype Frame =
    SimpleString bytes
  | SimpleError bytes
  | Bulk "bytes option"
  | Integer i64
  | Array "Frame list option"

text \<open>\<open>size_of::<Frame>()\<close>: a tag word and the largest payload, a three-word \<open>Vec\<close> or \<open>String\<close>.\<close>

definition size_of_Frame :: usize where
  "size_of_Frame = 32"

declare size_of_Frame_def [size_eval]

fun write_to :: "Frame \<Rightarrow> bytes \<Rightarrow> bytes" where
  "write_to (SimpleString inner) buf = buf @ ''+'' @ inner @ CRLF"
| "write_to (SimpleError inner) buf = buf @ ''-'' @ inner @ CRLF"
| "write_to (Bulk (Some inner)) buf =
     buf @ ''$'' @ nat_to_string (length inner) @ CRLF @ inner @ CRLF"
| "write_to (Bulk None) buf = buf @ ''$-1'' @ CRLF"
| "write_to (Integer inner) buf = buf @ '':'' @ int_to_string (sint inner) @ CRLF"
| "write_to (Array (Some inner)) buf =
     fold write_to inner (buf @ ''*'' @ nat_to_string (length inner) @ CRLF)"
| "write_to (Array None) buf = buf @ ''*-1'' @ CRLF"

definition to_bytes :: "Frame \<Rightarrow> bytes" where
  "to_bytes f = write_to f []"

fun wf_frame :: "Frame \<Rightarrow> bool" where
  "wf_frame (SimpleString s) \<longleftrightarrow> is_utf8 s \<and> crlf_free s"
| "wf_frame (SimpleError s) \<longleftrightarrow> is_utf8 s \<and> crlf_free s"
| "wf_frame (Bulk (Some b)) \<longleftrightarrow> length b \<le> isize_max"
| "wf_frame (Bulk None) \<longleftrightarrow> True"
| "wf_frame (Integer _) \<longleftrightarrow> True"
| "wf_frame (Array (Some fs)) \<longleftrightarrow> length fs * size_of_Frame \<le> isize_max \<and> (\<forall>f \<in> set fs. wf_frame f)"
| "wf_frame (Array None) \<longleftrightarrow> True"

lemma fold_append: "(\<And>x acc. x \<in> set xs \<Longrightarrow> f x acc = acc @ g x) \<Longrightarrow> fold f xs acc = acc @ concat (map g xs)"
  by (induction xs arbitrary: acc) auto

text \<open>Writing appends: what is already in the buffer never influences the encoding.\<close>

lemma write_to_append: "write_to f buf = buf @ to_bytes f"
  unfolding to_bytes_def
proof (induction f buf rule: write_to.induct)
  case (6 inner buf)
  then have "\<And>b. fold write_to inner b = b @ concat (map (\<lambda>f. write_to f []) inner)"
    by (intro fold_append) (metis append_Nil)
  then show ?case by simp
qed simp_all

lemma to_bytes_simps [simp]:
  "to_bytes (SimpleString s) = CHR ''+'' # s @ CRLF"
  "to_bytes (SimpleError s) = CHR ''-'' # s @ CRLF"
  "to_bytes (Bulk (Some b)) = CHR ''$'' # nat_to_string (length b) @ CRLF @ b @ CRLF"
  "to_bytes (Bulk None) = CHR ''$'' # ''-1'' @ CRLF"
  "to_bytes (Integer i) = CHR '':'' # int_to_string (sint i) @ CRLF"
  "to_bytes (Array None) = CHR ''*'' # ''-1'' @ CRLF"
  by (simp_all add: to_bytes_def)

lemma to_bytes_Array [simp]:
  "to_bytes (Array (Some fs)) =
     CHR ''*'' # nat_to_string (length fs) @ CRLF @ concat (map to_bytes fs)"
proof -
  have "\<And>b. fold write_to fs b = b @ concat (map to_bytes fs)"
    by (intro fold_append write_to_append)
  then show ?thesis by (simp add: to_bytes_def)
qed

lemma to_bytes_not_Nil [simp]: "to_bytes f \<noteq> []"
proof (cases f)
  case (Bulk x) then show ?thesis by (cases x) auto
next
  case (Array x) then show ?thesis by (cases x) auto
qed auto

end
