(* ===== verification/Resp_Parser.thy ===== *)
theory Resp_Parser
  imports Resp_Frame
begin

text \<open>
  The incremental parser (\<open>src/src/parser.rs\<close>): its states, buffer and stack of open arrays,
  one definition per loop body and per loop, and its correctness: termination, the type
  invariant, independence of how the stream is cut into chunks, and the round trip with the
  encoder. \<open>None\<close> as a result stands for a panic of the task that runs the parser. The stack
  is kept with its top first.
\<close>

datatype ParseError = UnreadableUtf | InvalidLength | UnreadableBulkString

datatype State =
    Start
  | ReadingSimpleString
  | ReadingSimpleError
  | ReadingBulkLength
  | ReadingBulkString usize
  | ReadingInteger
  | ReadingInline
  | ReadingArrayLength
  | Error ParseError

record Parser =
  state :: State
  buf :: bytes
  stack :: "Frame Vec list"

datatype ParseResult = Complete "Frame list" | Partial "Frame list" ParseError

definition Parser_new :: Parser where
  "Parser_new = \<lparr>state = Start, buf = [], stack = []\<rparr>"

definition set_error :: "Parser \<Rightarrow> ParseError \<Rightarrow> Parser" where
  "set_error p e = p\<lparr>state := Error e\<rparr>"

definition is_empty :: "Parser \<Rightarrow> bool" where
  "is_empty p \<longleftrightarrow> buf p = []"

section \<open>One frame\<close>

definition read_length :: "Parser \<Rightarrow> (ParseError + i64 option) \<times> Parser" where
  "read_length p =
     (case find_crlf (buf p) of
        None \<Rightarrow> (Inr None, p)
      | Some pos \<Rightarrow>
          let slice = take pos (buf p) in
          if \<not> is_utf8 slice then (Inl InvalidLength, p) else
          case parse_i64 slice of
            None \<Rightarrow> (Inl InvalidLength, p)
          | Some v \<Rightarrow> (Inr (Some v), p\<lparr>buf := drop (pos + 2) (buf p)\<rparr>))"

text \<open>\<open>usize::try_from\<close> of an \<open>i64\<close>.\<close>

definition usize_try_from :: "i64 \<Rightarrow> usize option" where
  "usize_try_from w = (if 0 \<le> sint w then Some (nat (sint w)) else None)"

text \<open>
  What one iteration of the loop in \<open>try_parse_one_frame\<close> does: go round again, return, or
  panic.
\<close>

datatype Step = Continue Parser | Return "ParseError + Frame option" Parser | Panic

definition step_start :: "Parser \<Rightarrow> Step" where
  "step_start p =
     (case buf p of
        [] \<Rightarrow> Return (Inr None) p
      | c # rest \<Rightarrow>
          if c = CHR ''+'' then Continue (p\<lparr>buf := rest, state := ReadingSimpleString\<rparr>)
          else if c = CHR ''$'' then Continue (p\<lparr>buf := rest, state := ReadingBulkLength\<rparr>)
          else if c = CHR ''*'' then Continue (p\<lparr>buf := rest, state := ReadingArrayLength\<rparr>)
          else if c = CHR ''-'' then Continue (p\<lparr>buf := rest, state := ReadingSimpleError\<rparr>)
          else if c = CHR '':'' then Continue (p\<lparr>buf := rest, state := ReadingInteger\<rparr>)
          else Continue (p\<lparr>state := ReadingInline\<rparr>))"

text \<open>The arms of simple strings and simple errors differ in the constructor only.\<close>

definition step_line :: "(bytes \<Rightarrow> Frame) \<Rightarrow> Parser \<Rightarrow> Step" where
  "step_line mk p =
     (case find_crlf (buf p) of
        None \<Rightarrow> Return (Inr None) p
      | Some pos \<Rightarrow>
          let payload = take pos (buf p); p1 = p\<lparr>buf := drop pos (buf p)\<rparr> in
          if is_utf8 payload
          then Return (Inr (Some (mk payload))) (p1\<lparr>buf := drop 2 (buf p1), state := Start\<rparr>)
          else Return (Inl UnreadableUtf) p1)"

definition step_inline :: "(u8 \<Rightarrow> bytes \<Rightarrow> nat option) \<Rightarrow> Parser \<Rightarrow> Step" where
  "step_inline mc p =
     (case mc LF (buf p) of
        None \<Rightarrow> Return (Inr None) p
      | Some pos \<Rightarrow>
          (case drain pos (buf p) of
             None \<Rightarrow> Panic
           | Some (line, rest) \<Rightarrow>
               (case utf8_chars line of
                  None \<Rightarrow> Return (Inl UnreadableUtf) (p\<lparr>buf := rest\<rparr>)
                | Some chs \<Rightarrow>
                    let array_inner = map (\<lambda>a. Bulk (Some a)) (split_whitespace chs) in
                    (case drain 1 rest of
                       None \<Rightarrow> Panic
                     | Some (_, rest') \<Rightarrow>
                         let p1 = p\<lparr>buf := rest', state := Start\<rparr> in
                         if array_inner = [] then Continue p1
                         else Return (Inr (Some (Array (Some array_inner)))) p1))))"

definition step_bulk_length :: "Parser \<Rightarrow> Step" where
  "step_bulk_length p =
     (case read_length p of
        (Inl e, p1) \<Rightarrow> Return (Inl e) p1
      | (Inr None, p1) \<Rightarrow> Return (Inr None) p1
      | (Inr (Some len), p1) \<Rightarrow>
          if sint len = -1 then Return (Inr (Some (Bulk None))) (p1\<lparr>state := Start\<rparr>)
          else if sint len < -1 then Return (Inl InvalidLength) p1
          else (case usize_try_from len of
                  None \<Rightarrow> Return (Inl InvalidLength) p1
                | Some n \<Rightarrow> Continue (p1\<lparr>state := ReadingBulkString n\<rparr>)))"

definition step_bulk_string :: "usize \<Rightarrow> Parser \<Rightarrow> Step" where
  "step_bulk_string len p =
     (if length (buf p) < len + 2 then Return (Inr None) p
      else if buf p ! len \<noteq> CR \<or> buf p ! (len + 1) \<noteq> LF
      then Return (Inl UnreadableBulkString) p
      else Return (Inr (Some (Bulk (Some (take len (buf p))))))
             (p\<lparr>buf := drop 2 (drop len (buf p)), state := Start\<rparr>))"

definition step_integer :: "Parser \<Rightarrow> Step" where
  "step_integer p =
     (case read_length p of
        (Inl e, p1) \<Rightarrow> Return (Inl e) p1
      | (Inr None, p1) \<Rightarrow> Return (Inr None) p1
      | (Inr (Some l), p1) \<Rightarrow> Return (Inr (Some (Integer l))) (p1\<lparr>state := Start\<rparr>))"

definition step_array_length :: "Parser \<Rightarrow> Step" where
  "step_array_length p =
     (case read_length p of
        (Inl e, p1) \<Rightarrow> Return (Inl e) p1
      | (Inr None, p1) \<Rightarrow> Return (Inr None) p1
      | (Inr (Some len), p1) \<Rightarrow>
          if sint len = -1 then Return (Inr (Some (Array None))) (p1\<lparr>state := Start\<rparr>)
          else if sint len = 0 then Return (Inr (Some (Array (Some [])))) (p1\<lparr>state := Start\<rparr>)
          else if sint len < -1 then Return (Inl InvalidLength) p1
          else (case usize_try_from len of
                  None \<Rightarrow> Return (Inl InvalidLength) p1
                | Some n \<Rightarrow>
                    (case with_capacity size_of_Frame n of
                       None \<Rightarrow> Panic
                     | Some v \<Rightarrow> Continue (p1\<lparr>stack := v # stack p1, state := Start\<rparr>))))"

definition parse_step :: "(u8 \<Rightarrow> bytes \<Rightarrow> nat option) \<Rightarrow> Parser \<Rightarrow> Step" where
  "parse_step mc p =
     (case state p of
        Start \<Rightarrow> step_start p
      | ReadingSimpleString \<Rightarrow> step_line SimpleString p
      | ReadingInline \<Rightarrow> step_inline mc p
      | ReadingSimpleError \<Rightarrow> step_line SimpleError p
      | ReadingBulkLength \<Rightarrow> step_bulk_length p
      | ReadingBulkString len \<Rightarrow> step_bulk_string len p
      | ReadingInteger \<Rightarrow> step_integer p
      | ReadingArrayLength \<Rightarrow> step_array_length p
      | Error e \<Rightarrow> Return (Inl e) p)"

lemmas step_defs = step_start_def step_line_def step_inline_def step_bulk_length_def
  step_bulk_string_def step_integer_def step_array_length_def

text \<open>
  Every iteration that goes round again makes progress: it takes a byte, or leaves \<open>Start\<close> for
  the inline state, which takes at least one byte before it comes back.
\<close>

definition parse_measure :: "Parser \<Rightarrow> nat" where
  "parse_measure p = 2 * length (buf p) + (if state p = Start then 1 else 0)"

lemma read_length_Some:
  "read_length p = (Inr (Some v), p1) \<Longrightarrow>
     state p1 = state p \<and> stack p1 = stack p \<and> length (buf p1) + 2 \<le> length (buf p)"
  unfolding read_length_def
  by (auto simp: Let_def dest: find_crlf_bound split: option.splits if_splits)

lemma read_length_other:
  "read_length p = (Inr None, p1) \<Longrightarrow> p1 = p" "read_length p = (Inl e, p1) \<Longrightarrow> p1 = p"
  unfolding read_length_def by (auto simp: Let_def split: option.splits if_splits)

lemma step_progress_start: "step_start p = Continue q \<Longrightarrow> state p = Start \<Longrightarrow> parse_measure q < parse_measure p"
  by (auto simp: step_start_def parse_measure_def split: list.splits if_splits)

lemma step_progress_inline:
  "step_inline mc p = Continue q \<Longrightarrow> state p = ReadingInline \<Longrightarrow> parse_measure q < parse_measure p"
  by (auto simp: step_inline_def parse_measure_def Let_def drain_def
      split: option.splits if_splits prod.splits)

lemma step_progress_bulk_length:
  "step_bulk_length p = Continue q \<Longrightarrow> state p = ReadingBulkLength \<Longrightarrow> parse_measure q < parse_measure p"
  by (auto simp: step_bulk_length_def parse_measure_def dest!: read_length_Some
      split: sum.splits option.splits if_splits prod.splits)

lemma step_progress_array_length:
  "step_array_length p = Continue q \<Longrightarrow> state p = ReadingArrayLength \<Longrightarrow> parse_measure q < parse_measure p"
  by (auto simp: step_array_length_def parse_measure_def dest!: read_length_Some
      split: sum.splits option.splits if_splits prod.splits)

lemma step_no_continue:
  "step_line mk p \<noteq> Continue q" "step_bulk_string n p \<noteq> Continue q" "step_integer p \<noteq> Continue q"
  by (auto simp: step_line_def step_bulk_string_def step_integer_def Let_def
      split: option.splits sum.splits prod.splits)

lemma parse_step_progress: "parse_step mc p = Continue q \<Longrightarrow> parse_measure q < parse_measure p"
  by (auto simp: parse_step_def step_no_continue split: State.splits
      dest: step_progress_start step_progress_inline step_progress_bulk_length step_progress_array_length)

function try_parse_loop ::
  "(u8 \<Rightarrow> bytes \<Rightarrow> nat option) \<Rightarrow> Parser \<Rightarrow> ((ParseError + Frame option) \<times> Parser) option" where
  "try_parse_loop mc p =
     (case parse_step mc p of
        Panic \<Rightarrow> None
      | Return r q \<Rightarrow> Some (r, q)
      | Continue q \<Rightarrow> try_parse_loop mc q)"
  by pat_completeness auto
termination
  by (relation "measure (\<lambda>(mc, p). parse_measure p)") (auto dest: parse_step_progress)

declare try_parse_loop.simps [simp del]

definition try_parse_one_frame ::
  "(u8 \<Rightarrow> bytes \<Rightarrow> nat option) \<Rightarrow> Parser \<Rightarrow> ((ParseError + Frame option) \<times> Parser) option" where
  "try_parse_one_frame mc p =
     (case state p of Error e \<Rightarrow> Some (Inl e, p) | _ \<Rightarrow> try_parse_loop mc p)"

section \<open>All frames of the buffer\<close>

text \<open>
  A finished frame goes into the innermost open array; every array this fills is closed and
  becomes an element of the array around it, or an output when none is open.
\<close>

function close_full :: "Frame Vec list \<Rightarrow> Frame Vec list \<times> Frame list" where
  "close_full [] = ([], [])"
| "close_full [v] = (if vec_full v then ([], [Array (Some (items v))]) else ([v], []))"
| "close_full (v # w # vs) =
     (if vec_full v then close_full (vec_push w (Array (Some (items v))) # vs)
      else (v # w # vs, []))"
  by pat_completeness auto
termination
  by (relation "measure length") auto

definition deliver :: "Frame Vec list \<Rightarrow> Frame \<Rightarrow> Frame Vec list \<times> Frame list" where
  "deliver st f = (case st of [] \<Rightarrow> ([], [f]) | v # vs \<Rightarrow> close_full (vec_push v f # vs))"

lemma step_consumes: "parse_step mc p = Return (Inr (Some f)) q \<Longrightarrow> length (buf q) < length (buf p)"
  by (auto simp: parse_step_def step_defs Let_def drain_def
      dest!: read_length_Some find_crlf_bound
      split: State.splits option.splits if_splits prod.splits list.splits sum.splits)

lemma step_continue_le: "parse_step mc p = Continue q \<Longrightarrow> length (buf q) \<le> length (buf p)"
  using parse_step_progress [of mc p q] by (auto simp: parse_measure_def split: if_splits)

lemma try_parse_loop_consumes:
  "try_parse_loop mc p = Some (Inr (Some f), q) \<Longrightarrow> length (buf q) < length (buf p)"
proof (induction mc p rule: try_parse_loop.induct)
  case (1 mc p)
  show ?case
  proof (cases "parse_step mc p")
    case (Continue r)
    with "1.prems" have "try_parse_loop mc r = Some (Inr (Some f), q)"
      by (simp add: try_parse_loop.simps [of mc p])
    from "1.IH" [OF Continue this] step_continue_le [OF Continue] show ?thesis by simp
  next
    case (Return x r)
    with "1.prems" step_consumes [of mc p f q] show ?thesis
      by (simp add: try_parse_loop.simps [of mc p])
  next
    case Panic
    with "1.prems" show ?thesis by (simp add: try_parse_loop.simps [of mc p])
  qed
qed

lemma try_parse_one_frame_consumes:
  "try_parse_one_frame mc p = Some (Inr (Some f), q) \<Longrightarrow> length (buf q) < length (buf p)"
  by (auto simp: try_parse_one_frame_def split: State.splits dest: try_parse_loop_consumes)

function parse_loop ::
  "(u8 \<Rightarrow> bytes \<Rightarrow> nat option) \<Rightarrow> Parser \<Rightarrow> Frame list \<Rightarrow> (Parser \<times> ParseResult) option" where
  "parse_loop mc p output =
     (case try_parse_one_frame mc p of
        None \<Rightarrow> None
      | Some (Inr (Some f), q) \<Rightarrow>
          parse_loop mc (q\<lparr>stack := fst (deliver (stack q) f)\<rparr>) (output @ snd (deliver (stack q) f))
      | Some (Inr None, q) \<Rightarrow> Some (q, Complete output)
      | Some (Inl e, q) \<Rightarrow> Some (set_error q e, Partial output e))"
  by pat_completeness auto
termination
  by (relation "measure (\<lambda>(mc, p, out). length (buf p))") (auto dest: try_parse_one_frame_consumes)

declare parse_loop.simps [simp del]

definition feed :: "Parser \<Rightarrow> bytes \<Rightarrow> Parser" where
  "feed p input = p\<lparr>buf := buf p @ input\<rparr>"

definition parse ::
  "(u8 \<Rightarrow> bytes \<Rightarrow> nat option) \<Rightarrow> Parser \<Rightarrow> bytes \<Rightarrow> (Parser \<times> ParseResult) option" where
  "parse mc p input = parse_loop mc (feed p input) []"

section \<open>More input never changes what was decided\<close>

lemma feed_simps [simp]:
  "state (feed p b) = state p" "buf (feed p b) = buf p @ b" "stack (feed p b) = stack p"
  by (simp_all add: feed_def)

fun feed_step :: "bytes \<Rightarrow> Step \<Rightarrow> Step" where
  "feed_step b (Continue q) = Continue (feed q b)"
| "feed_step b (Return r q) = Return r (feed q b)"
| "feed_step b Panic = Panic"

definition waiting :: "Step \<Rightarrow> bool" where
  "waiting s \<longleftrightarrow> (case s of Return (Inr None) _ \<Rightarrow> True | _ \<Rightarrow> False)"

lemma read_length_feed:
  "read_length p = (r, q) \<Longrightarrow> r \<noteq> Inr None \<Longrightarrow> read_length (feed p b) = (r, feed q b)"
  unfolding read_length_def
  by (auto simp: Let_def feed_def find_crlf_append dest: find_crlf_bound
      split: option.splits if_splits)

lemma step_start_feed: "\<not> waiting (step_start p) \<Longrightarrow> step_start (feed p b) = feed_step b (step_start p)"
  by (auto simp: step_start_def waiting_def feed_def split: list.split)

lemma step_line_feed:
  "\<not> waiting (step_line mk p) \<Longrightarrow> step_line mk (feed p b) = feed_step b (step_line mk p)"
  by (auto simp: step_line_def waiting_def feed_def Let_def find_crlf_append
      dest: find_crlf_bound split: option.splits)

lemma step_inline_feed:
  "\<not> waiting (step_inline index_of p) \<Longrightarrow>
     step_inline index_of (feed p b) = feed_step b (step_inline index_of p)"
  by (auto simp: step_inline_def waiting_def feed_def Let_def index_of_append drain_def
      dest: index_of_bound split: option.splits)

lemma step_bulk_string_feed:
  "\<not> waiting (step_bulk_string n p) \<Longrightarrow>
     step_bulk_string n (feed p b) = feed_step b (step_bulk_string n p)"
  by (auto simp: step_bulk_string_def waiting_def feed_def nth_append split: if_splits)

lemma step_bulk_length_feed:
  "\<not> waiting (step_bulk_length p) \<Longrightarrow>
     step_bulk_length (feed p b) = feed_step b (step_bulk_length p)"
  by (cases "read_length p")
    (auto simp: step_bulk_length_def waiting_def feed_def [of "Parser.state_update _ _"]
      dest: read_length_feed [of p _ _ b] split: sum.splits option.splits)

lemma step_integer_feed:
  "\<not> waiting (step_integer p) \<Longrightarrow> step_integer (feed p b) = feed_step b (step_integer p)"
  by (cases "read_length p")
    (auto simp: step_integer_def waiting_def dest: read_length_feed [of p _ _ b]
      split: sum.splits option.splits)

lemma step_array_length_feed:
  "\<not> waiting (step_array_length p) \<Longrightarrow>
     step_array_length (feed p b) = feed_step b (step_array_length p)"
  by (cases "read_length p")
    (auto simp: step_array_length_def waiting_def dest: read_length_feed [of p _ _ b]
      split: sum.splits option.splits)

lemma parse_step_feed:
  "\<not> waiting (parse_step index_of p) \<Longrightarrow>
     parse_step index_of (feed p b) = feed_step b (parse_step index_of p)"
  by (cases "state p")
    (simp_all add: parse_step_def step_start_feed step_line_feed step_inline_feed
      step_bulk_string_feed step_bulk_length_feed step_integer_feed step_array_length_feed)

lemma parse_step_waiting: "parse_step mc p = Return (Inr None) q \<Longrightarrow> q = p"
  by (auto simp: parse_step_def step_defs Let_def dest!: read_length_other
      split: State.splits option.splits if_splits prod.splits list.splits sum.splits)

text \<open>One frame: a decided result stays, and an undecided one resumes where it stopped.\<close>

lemma try_parse_loop_feed:
  "try_parse_loop index_of (feed p b) =
     (case try_parse_loop index_of p of
        None \<Rightarrow> None
      | Some (Inr None, q) \<Rightarrow> try_parse_loop index_of (feed q b)
      | Some (r, q) \<Rightarrow> Some (r, feed q b))"
proof (induction "index_of" p rule: try_parse_loop.induct)
  case (1 p)
  note unfold = try_parse_loop.simps [of index_of p] try_parse_loop.simps [of index_of "feed p b"]
  show ?case
  proof (cases "waiting (parse_step index_of p)")
    case True
    then obtain q where q: "parse_step index_of p = Return (Inr None) q"
      by (auto simp: waiting_def split: Step.splits sum.splits option.splits)
    then have "try_parse_loop index_of p = Some (Inr None, p)"
      using parse_step_waiting [OF q] by (simp add: try_parse_loop.simps [of index_of p])
    then show ?thesis by simp
  next
    case False
    then have step: "parse_step index_of (feed p b) = feed_step b (parse_step index_of p)"
      by (rule parse_step_feed)
    show ?thesis
    proof (cases "parse_step index_of p")
      case (Continue q)
      with step "1" show ?thesis by (simp add: unfold)
    next
      case (Return r q)
      with step False show ?thesis
        by (auto simp: unfold waiting_def split: sum.splits option.splits)
    qed (use step unfold in simp)
  qed
qed

lemma try_parse_loop_Error: "state p = Error e \<Longrightarrow> try_parse_loop mc p = Some (Inl e, p)"
  by (simp add: try_parse_loop.simps parse_step_def)

text \<open>The test on entry of \<open>try_parse_one_frame\<close> agrees with the last arm of its loop.\<close>

lemma try_parse_one_frame_eq: "try_parse_one_frame mc p = try_parse_loop mc p"
  by (auto simp: try_parse_one_frame_def try_parse_loop_Error split: State.split)

lemma feed_stack [simp]: "feed (q\<lparr>stack := st\<rparr>) b = (feed q b)\<lparr>stack := st\<rparr>"
  by (simp add: feed_def)

lemma feed_set_error [simp]: "feed (set_error q e) b = set_error (feed q b) e"
  by (simp add: feed_def set_error_def)

text \<open>All frames: the parser can be stopped after any prefix and continued with the rest.\<close>

lemma parse_loop_feed:
  "parse_loop index_of (feed p b) out =
     (case parse_loop index_of p out of
        None \<Rightarrow> None
      | Some (q, Complete out') \<Rightarrow> parse_loop index_of (feed q b) out'
      | Some (q, Partial out' e) \<Rightarrow> Some (feed q b, Partial out' e))"
proof (induction "index_of" p out rule: parse_loop.induct)
  case (1 p out)
  note unfold = parse_loop.simps [of index_of p] parse_loop.simps [of index_of "feed p b"]
  show ?case
  proof (cases "try_parse_loop index_of p")
    case None
    then show ?thesis
      by (simp add: unfold try_parse_one_frame_eq try_parse_loop_feed [of p])
  next
    case (Some rq)
    obtain r q where rq: "rq = (r, q)" by fastforce
    consider e where "r = Inl e" | "r = Inr None" | f where "r = Inr (Some f)"
      by (metis option.exhaust sum.exhaust)
    then show ?thesis
    proof cases
      case 2
      with Some rq have "parse_loop index_of p out = Some (q, Complete out)"
        by (simp add: parse_loop.simps [of index_of p] try_parse_one_frame_eq)
      moreover have "parse_loop index_of (feed p b) out = parse_loop index_of (feed q b) out"
        using Some rq 2
        by (simp add: parse_loop.simps [of index_of "feed p b"]
            parse_loop.simps [of index_of "feed q b"] try_parse_one_frame_eq try_parse_loop_feed [of p])
      ultimately show ?thesis by simp
    next
      case 3
      have IH: "parse_loop index_of (feed (q\<lparr>stack := fst (deliver (stack q) f)\<rparr>) b)
            (out @ snd (deliver (stack q) f)) =
          (case parse_loop index_of (q\<lparr>stack := fst (deliver (stack q) f)\<rparr>)
            (out @ snd (deliver (stack q) f)) of
             None \<Rightarrow> None
           | Some (q, Complete out') \<Rightarrow> parse_loop index_of (feed q b) out'
           | Some (q, Partial out' e) \<Rightarrow> Some (feed q b, Partial out' e))"
        using "1" [of rq r q "Some f" f] Some rq 3 by (simp add: try_parse_one_frame_eq)
      with Some rq 3 show ?thesis
        by (simp add: unfold try_parse_one_frame_eq try_parse_loop_feed [of p])
    qed (use Some rq in \<open>simp add: unfold try_parse_one_frame_eq try_parse_loop_feed [of p]\<close>)
  qed
qed

lemma feed_feed [simp]: "feed (feed p a) b = feed p (a @ b)"
  by (simp add: feed_def)

fun prepend :: "Frame list \<Rightarrow> ParseResult \<Rightarrow> ParseResult" where
  "prepend a (Complete out) = Complete (a @ out)"
| "prepend a (Partial out e) = Partial (a @ out) e"

lemma parse_loop_prepend:
  "parse_loop mc p (a @ out) = map_option (\<lambda>(q, r). (q, prepend a r)) (parse_loop mc p out)"
proof (induction mc p out rule: parse_loop.induct)
  case (1 mc p out)
  show ?case
    by (auto simp: parse_loop.simps [of mc p] "1" split: option.split sum.split)
qed

lemma parse_loop_output:
  "parse_loop mc p out = map_option (\<lambda>(q, r). (q, prepend out r)) (parse_loop mc p [])"
  using parse_loop_prepend [of mc p out "[]"] by simp

section \<open>The parser as an incremental decoder\<close>

text \<open>The pair of frames and halting error that \<open>Connection::run\<close> takes from a \<open>ParseResult\<close>.\<close>

definition parse_frames ::
  "(u8 \<Rightarrow> bytes \<Rightarrow> nat option) \<Rightarrow> Parser \<Rightarrow> bytes \<Rightarrow> (Parser \<times> Frame list \<times> ParseError option) option"
where
  "parse_frames mc p input =
     (case parse mc p input of
        None \<Rightarrow> None
      | Some (q, Complete f) \<Rightarrow> Some (q, f, None)
      | Some (q, Partial f e) \<Rightarrow> Some (q, f, Some e))"

text \<open>A parser is settled when its buffer holds nothing it could act on.\<close>

definition settled :: "Parser \<Rightarrow> bool" where
  "settled p \<longleftrightarrow> parse_loop index_of p [] = Some (p, Complete [])"

lemma try_parse_loop_stopped:
  "try_parse_loop mc p = Some (Inr None, r) \<Longrightarrow> try_parse_loop mc r = Some (Inr None, r)"
proof (induction mc p rule: try_parse_loop.induct)
  case (1 mc p)
  show ?case
  proof (cases "parse_step mc p")
    case (Continue q)
    with "1" show ?thesis by (simp add: try_parse_loop.simps [of mc p])
  next
    case (Return x q)
    with "1.prems" have "parse_step mc p = Return (Inr None) r"
      by (simp add: try_parse_loop.simps [of mc p])
    with parse_step_waiting [OF this] show ?thesis
      by (simp add: try_parse_loop.simps [of mc p])
  next
    case Panic
    with "1.prems" show ?thesis by (simp add: try_parse_loop.simps [of mc p])
  qed
qed

lemma parse_loop_settled:
  "parse_loop index_of p out = Some (q, Complete out') \<Longrightarrow> settled q"
proof (induction "index_of" p out rule: parse_loop.induct)
  case (1 p out)
  consider r where "try_parse_loop index_of p = Some (Inr None, r)"
    | f r where "try_parse_loop index_of p = Some (Inr (Some f), r)"
    using "1.prems"
    by (auto simp: parse_loop.simps [of index_of p] try_parse_one_frame_eq
        split: option.splits sum.splits)
  then show ?case
  proof cases
    case 1
    then have "try_parse_loop index_of r = Some (Inr None, r)"
      by (rule try_parse_loop_stopped)
    moreover have "r = q"
      using "1.prems" 1 by (simp add: parse_loop.simps [of index_of p] try_parse_one_frame_eq)
    ultimately show ?thesis
      by (simp add: settled_def parse_loop.simps [of index_of q] try_parse_one_frame_eq)
  next
    case 2
    with "1.prems" "1.hyps" show ?thesis
      by (simp add: parse_loop.simps [of index_of p] try_parse_one_frame_eq)
  qed
qed

lemma feed_Nil [simp]: "feed p [] = p"
  by (simp add: feed_def)

lemma parse_append:
  "parse index_of p (a @ b) =
     (case parse index_of p a of
        None \<Rightarrow> None
      | Some (q, Complete out) \<Rightarrow> map_option (\<lambda>(r, res). (r, prepend out res)) (parse index_of q b)
      | Some (q, Partial out e) \<Rightarrow> Some (feed q b, Partial out e))"
proof -
  have resume: "parse_loop index_of (feed q b) out =
      map_option (\<lambda>(r, res). (r, prepend out res)) (parse index_of q b)" for q out
    unfolding parse_def by (rule parse_loop_output)
  have "parse index_of p (a @ b) = parse_loop index_of (feed (feed p a) b) []"
    by (simp add: parse_def)
  also have "\<dots> = (case parse index_of p a of
        None \<Rightarrow> None
      | Some (q, Complete out) \<Rightarrow> parse_loop index_of (feed q b) out
      | Some (q, Partial out e) \<Rightarrow> Some (feed q b, Partial out e))"
    unfolding parse_def by (rule parse_loop_feed)
  also have "\<dots> = (case parse index_of p a of
        None \<Rightarrow> None
      | Some (q, Complete out) \<Rightarrow> map_option (\<lambda>(r, res). (r, prepend out res)) (parse index_of q b)
      | Some (q, Partial out e) \<Rightarrow> Some (feed q b, Partial out e))"
    by (simp only: resume)
  finally show ?thesis .
qed

lemma parse_frames_cases:
  "parse_frames mc p input = Some (q, out, None) \<longleftrightarrow> parse mc p input = Some (q, Complete out)"
  "parse_frames mc p input = Some (q, out, Some e) \<longleftrightarrow> parse mc p input = Some (q, Partial out e)"
  "parse_frames mc p input = None \<longleftrightarrow> parse mc p input = None"
proof -
  show "parse_frames mc p input = None \<longleftrightarrow> parse mc p input = None"
    by (cases "parse mc p input") (auto simp: parse_frames_def split: ParseResult.splits)
qed (auto simp: parse_frames_def split: option.splits ParseResult.splits)

lemma parse_frames_more:
  assumes "parse index_of p a = Some (q, Complete out)"
  shows "parse_frames index_of p (a @ b) =
    map_option (\<lambda>(r, o2, e). (r, out @ o2, e)) (parse_frames index_of q b)"
proof (cases "parse index_of q b")
  case None
  with assms show ?thesis by (simp add: parse_frames_def parse_append)
next
  case (Some res)
  with assms show ?thesis
    by (cases res, cases "snd res") (simp_all add: parse_frames_def parse_append)
qed

interpretation stream: incremental_decoder "parse_frames index_of" settled
proof (unfold_locales, goal_cases)
  case (1 s)
  then show ?case by (simp add: parse_frames_def parse_def settled_def)
next
  case (2 s xs s1 o1)
  then show ?case
    by (auto simp: parse_frames_def parse_def split: option.splits ParseResult.splits
        intro: parse_loop_settled)
next
  case (3 s xs s1 o1 ys)
  then show ?case by (simp add: parse_frames_cases parse_frames_more)
next
  case (4 s xs s1 o1 e ys)
  then show ?case by (simp add: parse_frames_cases parse_append)
next
  case (5 s xs ys)
  then show ?case by (simp add: parse_frames_cases parse_append)
qed

lemma settled_new [simp]: "settled Parser_new"
  by (simp add: settled_def Parser_new_def parse_loop.simps try_parse_one_frame_eq
      try_parse_loop.simps parse_step_def step_start_def)

section \<open>Parsing an encoded frame\<close>

abbreviation at_start :: "bytes \<Rightarrow> Frame Vec list \<Rightarrow> Parser" where
  "at_start b stk \<equiv> \<lparr>state = Start, buf = b, stack = stk\<rparr>"

lemma is_utf8_digits [simp]: "is_utf8 (nat_to_string n)" "is_utf8 (int_to_string i)"
proof -
  have digit: "(of_char (digit_char d) :: nat) < 0x80" if "d < 10" for d
    using less_ten_cases [OF that] by (auto simp: digit_char_def)
  have nat: "\<forall>c \<in> set (nat_to_string n). (of_char c :: nat) < 0x80" for n
    using set_nat_to_string [of n] digit by fastforce
  show "is_utf8 (nat_to_string n)" "is_utf8 (int_to_string i)"
    using nat by (auto intro!: is_utf8_ascii simp: int_to_string_def)
qed

lemma sint_word_of_nat: "n \<le> isize_max \<Longrightarrow> sint (word_of_nat n :: i64) = int n"
  by (simp add: isize_max_def signed_of_nat signed_take_bit_int_eq_self)

lemma read_length_line:
  assumes "parse_i64 s = Some v" "CR \<notin> set s" "is_utf8 s"
  shows "read_length \<lparr>state = st, buf = s @ CR # LF # rest, stack = stk\<rparr> =
    (Inr (Some v), \<lparr>state = st, buf = rest, stack = stk\<rparr>)"
  using assms find_crlf_terminated [OF find_crlf_no_CR [OF assms(2)], of rest]
  by (simp add: read_length_def)

lemmas read_nat_line = read_length_line [OF parse_i64_nat_to_string nat_to_string_notin(3) is_utf8_digits(1)]
lemmas read_int_line = read_length_line [OF parse_i64_int_to_string CR_notin_int_to_string is_utf8_digits(2)]

lemma read_minus_one:
  "read_length \<lparr>state = st, buf = CHR ''-'' # CHR ''1'' # CR # LF # rest, stack = stk\<rparr> =
    (Inr (Some (- 1)), \<lparr>state = st, buf = rest, stack = stk\<rparr>)"
proof -
  have "parse_i64 ''-1'' = Some (- 1)" "is_utf8 ''-1''"
    by (simp_all add: parse_i64_def parse_magnitude_def digit_value_def is_utf8_ascii)
  from read_length_line [OF this(1) _ this(2), of st rest stk] show ?thesis by simp
qed

lemma try_parse_leaf:
  assumes "wf_frame f" and "\<And>fs. f = Array (Some fs) \<Longrightarrow> fs = []"
  shows "try_parse_loop mc (at_start (to_bytes f @ rest) stk) = Some (Inr (Some f), at_start rest stk)"
proof (cases f)
  case (Bulk x)
  show ?thesis
  proof (cases x)
    case (Some b)
    with Bulk assms show ?thesis
      by (simp add: try_parse_loop.simps parse_step_def step_start_def step_bulk_length_def
          step_bulk_string_def read_nat_line sint_word_of_nat usize_try_from_def nth_append)
  qed (simp add: Bulk try_parse_loop.simps parse_step_def step_start_def step_bulk_length_def
      read_minus_one)
next
  case (Array x)
  show ?thesis
  proof (cases x)
    case (Some fs)
    with Array assms(2) have "f = Array (Some [])" by simp
    then show ?thesis
      using read_nat_line [of 0 ReadingArrayLength rest stk]
      by (simp add: try_parse_loop.simps parse_step_def step_start_def step_array_length_def isize_max_def)
  qed (simp add: Array try_parse_loop.simps parse_step_def step_start_def step_array_length_def
      read_minus_one)
qed (use assms in \<open>simp_all add: try_parse_loop.simps parse_step_def step_start_def step_line_def
    step_integer_def read_int_line find_crlf_terminated\<close>)

lemma try_parse_array_header:
  assumes "0 < n" "n * size_of_Frame \<le> isize_max"
  shows "try_parse_loop mc (at_start (CHR ''*'' # nat_to_string n @ CR # LF # rest) stk) =
    try_parse_loop mc (at_start rest (\<lparr>capacity = n, items = []\<rparr> # stk))"
proof -
  have "n \<le> isize_max"
    using assms(2) by (simp add: size_of_Frame_def)
  with assms show ?thesis
    by (simp add: try_parse_loop.simps [of mc "at_start (_ # _) stk"] parse_step_def step_start_def
        try_parse_loop.simps [of mc "\<lparr>state = ReadingArrayLength, buf = _, stack = _\<rparr>"]
        step_array_length_def read_nat_line sint_word_of_nat usize_try_from_def with_capacity_def)
qed

text \<open>Delivering into an open array: the last element closes it into the array around it.\<close>

lemma deliver_open:
  assumes "length done < n"
  shows "deliver (\<lparr>capacity = n, items = done\<rparr> # stk) f =
    (if length done + 1 = n then deliver stk (Array (Some (done @ [f])))
     else (\<lparr>capacity = n, items = done @ [f]\<rparr> # stk, []))"
  using assms by (cases stk) (auto simp: deliver_def vec_push_def vec_full_def)

lemma parse_loop_cong: "try_parse_loop mc p = try_parse_loop mc q \<Longrightarrow> parse_loop mc p out = parse_loop mc q out"
  by (simp add: parse_loop.simps [of mc p] parse_loop.simps [of mc q] try_parse_one_frame_eq)

definition parses_as :: "(u8 \<Rightarrow> bytes \<Rightarrow> nat option) \<Rightarrow> Frame \<Rightarrow> bool" where
  "parses_as mc f \<longleftrightarrow> (\<forall>rest stk out.
     parse_loop mc (at_start (to_bytes f @ rest) stk) out =
     parse_loop mc (at_start rest (fst (deliver stk f))) (out @ snd (deliver stk f)))"

lemma parses_leaf:
  assumes "wf_frame f" and "\<And>fs. f = Array (Some fs) \<Longrightarrow> fs = []"
  shows "parses_as mc f"
  unfolding parses_as_def
proof (intro allI)
  fix rest stk out
  show "parse_loop mc (at_start (to_bytes f @ rest) stk) out =
      parse_loop mc (at_start rest (fst (deliver stk f))) (out @ snd (deliver stk f))"
    by (subst parse_loop.simps) (simp add: try_parse_one_frame_eq try_parse_leaf [OF assms])
qed

lemma parses_elements:
  assumes "\<forall>f \<in> set fs. parses_as mc f" "fs \<noteq> []" "length done + length fs = n"
  shows "parse_loop mc (at_start (concat (map to_bytes fs) @ rest) (\<lparr>capacity = n, items = done\<rparr> # stk)) out =
    parse_loop mc (at_start rest (fst (deliver stk (Array (Some (done @ fs))))))
      (out @ snd (deliver stk (Array (Some (done @ fs)))))"
  using assms
proof (induction fs arbitrary: "done")
  case (Cons f fs)
  have f: "parse_loop mc (at_start (to_bytes f @ tail) st) out =
      parse_loop mc (at_start tail (fst (deliver st f))) (out @ snd (deliver st f))" for tail st
    using Cons.prems(1) by (simp add: parses_as_def)
  show ?case
  proof (cases "fs = []")
    case True
    with Cons.prems show ?thesis by (simp add: f deliver_open)
  next
    case False
    with Cons.prems have "length done + 1 \<noteq> n" by (cases fs) auto
    with Cons False show ?thesis by (simp add: f deliver_open)
  qed
qed simp

lemma parses_frame: "wf_frame f \<Longrightarrow> parses_as mc f"
proof (induction f rule: wf_frame.induct)
  case (6 fs)
  show ?case
  proof (cases "fs = []")
    case True
    then show ?thesis by (auto intro: parses_leaf)
  next
    case False
    with "6" have IH: "\<forall>f \<in> set fs. parses_as mc f" "0 < length fs"
      "length fs * size_of_Frame \<le> isize_max" by auto
    show ?thesis
      unfolding parses_as_def
      using parse_loop_cong [OF try_parse_array_header [OF IH(2,3)], of mc]
        parses_elements [OF IH(1) False, of "[]"] by simp
  qed
qed (auto intro: parses_leaf)

lemma parses_frames:
  "\<forall>f \<in> set fs. wf_frame f \<Longrightarrow>
     parse_loop mc (at_start (concat (map to_bytes fs) @ rest) []) out =
     parse_loop mc (at_start rest []) (out @ fs)"
proof (induction fs arbitrary: out)
  case (Cons f fs)
  have "parses_as mc f"
    using Cons.prems by (simp add: parses_frame)
  with Cons show ?case by (simp add: parses_as_def deliver_def)
qed simp

lemma parse_loop_empty: "parse_loop mc (at_start [] stk) out = Some (at_start [] stk, Complete out)"
  by (simp add: parse_loop.simps try_parse_one_frame_eq try_parse_loop.simps parse_step_def step_start_def)

lemma parse_frames_encoded:
  "\<forall>f \<in> set fs. wf_frame f \<Longrightarrow>
     parse_frames mc Parser_new (concat (map to_bytes fs)) = Some (Parser_new, fs, None)"
  using parses_frames [of fs mc "[]" "[]"]
  by (simp add: parse_frames_def parse_def feed_def Parser_new_def parse_loop_empty)

section \<open>The type invariant\<close>

text \<open>
  Between iterations every open array has room for another element, so \<open>push\<close> never
  reallocates (the test \<open>capacity() - len() == 0\<close> means "complete") and the subtraction never
  underflows; and an announced bulk length is at most \<open>i64::MAX\<close>, so \<open>len + 2\<close> does not overflow.
\<close>

definition vec_open :: "'a Vec \<Rightarrow> bool" where
  "vec_open v \<longleftrightarrow> length (items v) < capacity v"

definition parser_ok :: "Parser \<Rightarrow> bool" where
  "parser_ok p \<longleftrightarrow> list_all vec_open (stack p) \<and>
     (case state p of ReadingBulkString n \<Rightarrow> n \<le> isize_max | _ \<Rightarrow> True)"

lemma usize_try_from_bound: "usize_try_from w = Some n \<Longrightarrow> n \<le> isize_max \<and> int n = sint w"
  using sint_range_i64 [of w]
  by (auto simp: usize_try_from_def isize_max_def nat_le_iff split: if_splits)

lemma read_length_frame: "read_length p = (r, q) \<Longrightarrow> state q = state p \<and> stack q = stack p"
  unfolding read_length_def by (auto simp: Let_def split: option.splits if_splits)

lemma step_ok_array_length:
  "step_array_length p = Continue q \<Longrightarrow> parser_ok p \<Longrightarrow> parser_ok q"
  by (auto simp: step_array_length_def parser_ok_def with_capacity_def vec_open_def
      dest!: read_length_frame usize_try_from_bound
      split: prod.splits sum.splits option.splits if_splits)

lemma step_ok_bulk_length:
  "step_bulk_length p = Continue q \<Longrightarrow> parser_ok p \<Longrightarrow> parser_ok q"
  by (auto simp: step_bulk_length_def parser_ok_def
      dest!: read_length_frame usize_try_from_bound
      split: prod.splits sum.splits option.splits if_splits)

lemma step_ok_continue: "parse_step mc p = Continue q \<Longrightarrow> parser_ok p \<Longrightarrow> parser_ok q"
  by (cases "state p")
    (auto simp: parse_step_def step_no_continue step_start_def step_inline_def Let_def
      dest: step_ok_array_length step_ok_bulk_length
      simp: parser_ok_def split: list.splits option.splits if_splits prod.splits)

lemma step_ok_return: "parse_step mc p = Return r q \<Longrightarrow> parser_ok p \<Longrightarrow> parser_ok q"
  by (auto simp: parse_step_def step_defs Let_def parser_ok_def
      dest!: read_length_frame
      split: State.splits option.splits if_splits prod.splits list.splits sum.splits)

lemma try_parse_loop_ok: "try_parse_loop mc p = Some (r, q) \<Longrightarrow> parser_ok p \<Longrightarrow> parser_ok q"
proof (induction mc p rule: try_parse_loop.induct)
  case (1 mc p)
  then show ?case
    by (cases "parse_step mc p")
      (auto simp: try_parse_loop.simps [of mc p] dest: step_ok_continue step_ok_return)
qed

lemma close_full_ok:
  "length (items v) \<le> capacity v \<Longrightarrow> list_all vec_open vs \<Longrightarrow> list_all vec_open (fst (close_full (v # vs)))"
  by (induction vs arbitrary: v) (auto simp: vec_open_def vec_full_def vec_push_def)

lemma deliver_ok: "list_all vec_open st \<Longrightarrow> list_all vec_open (fst (deliver st f))"
  by (cases st) (auto simp: deliver_def vec_open_def vec_push_def intro!: close_full_ok)

lemma parser_ok_stack: "parser_ok p \<Longrightarrow> list_all vec_open st \<Longrightarrow> parser_ok (p\<lparr>stack := st\<rparr>)"
  by (simp add: parser_ok_def)

lemma parse_loop_ok: "parse_loop mc p out = Some (q, res) \<Longrightarrow> parser_ok p \<Longrightarrow> parser_ok q"
proof (induction mc p out rule: parse_loop.induct)
  case (1 mc p out)
  show ?case
  proof (cases "try_parse_loop mc p")
    case None
    with "1.prems" show ?thesis by (simp add: parse_loop.simps [of mc p] try_parse_one_frame_eq)
  next
    case (Some rr)
    obtain x r where rr: "rr = (x, r)" by fastforce
    with Some "1.prems"(2) have r: "parser_ok r" by (auto dest: try_parse_loop_ok)
    then have stk: "list_all vec_open (stack r)" by (simp add: parser_ok_def)
    consider e where "x = Inl e" | "x = Inr None" | f where "x = Inr (Some f)"
      by (metis option.exhaust sum.exhaust)
    then show ?thesis
    proof cases
      case 3
      with "1" Some rr parser_ok_stack [OF r deliver_ok [OF stk, of f]] show ?thesis
        by (simp add: parse_loop.simps [of mc p] try_parse_one_frame_eq)
    qed (use "1.prems" Some rr r in
      \<open>auto simp: parse_loop.simps [of mc p] try_parse_one_frame_eq parser_ok_def set_error_def\<close>)
  qed
qed

lemma parse_loop_Partial:
  "parse_loop mc p out = Some (q, Partial out' e) \<Longrightarrow> state q = Error e"
proof (induction mc p out rule: parse_loop.induct)
  case (1 mc p out)
  then show ?case
    by (auto simp: parse_loop.simps [of mc p] set_error_def split: option.splits sum.splits)
qed

text \<open>The equations that evaluate the parser on a concrete input.\<close>

lemmas parser_eval = parse_def feed_def Parser_new_def parse_loop.simps try_parse_one_frame_def
  try_parse_loop.simps parse_step_def step_defs read_length_def set_error_def usize_try_from_def
  with_capacity_def deliver_def vec_push_def vec_full_def is_utf8_def parse_i64_def
  parse_magnitude_def digit_value_def size_eval drain_def
  split_whitespace_def is_whitespace_def utf8_two_def utf8_three_def utf8_four_def utf8_cont_def Let_def

section \<open>Correctness of the parser\<close>

text \<open>
  C1. Round trip: the parser, given the encodings of any well-formed frames one after the
  other, returns exactly those frames, with an empty buffer, no open array and no error, and it
  does not panic; nested arrays, empty arrays and nil values included.
\<close>

theorem frame_bytes_frame:
  assumes "\<forall>f \<in> set fs. wf_frame f"
  shows "parse mc Parser_new (concat (map to_bytes fs)) = Some (Parser_new, Complete fs)"
  using parses_frames [OF assms, of mc "[]" "[]"]
  by (simp add: parse_def feed_def Parser_new_def parse_loop_empty)

theorem frame_bytes_frame_witness:
  "parse index_of Parser_new
     (concat (map to_bytes [Array (Some [Bulk (Some ''a''), Array None, Integer (- 5)]), SimpleString ''OK'']))
   = Some (Parser_new, Complete [Array (Some [Bulk (Some ''a''), Array None, Integer (- 5)]), SimpleString ''OK''])"
  by (rule frame_bytes_frame)
    (simp add: size_eval is_utf8_ascii crlf_free_def)

text \<open>
  C2. Chunk independence: however the bytes of a connection are cut into reads, handing the
  reads to the parser one by one gives the same frames and the same error as parsing the whole
  stream at once.
\<close>

theorem parse_chunks:
  assumes "memchr_law mc"
  shows "feed_chunks (parse_frames mc) Parser_new cs =
    map_option snd (parse_frames mc Parser_new (concat cs))"
  using stream.feed_chunks_concat [OF settled_new, of cs] memchr_law_unique [OF assms] by simp

theorem parse_chunks_witness:
  "memchr_law index_of \<and>
   feed_chunks (parse_frames index_of) Parser_new [''PI'', ''NG'', [LF]] =
   map_option snd (parse_frames index_of Parser_new (concat [''PI'', ''NG'', [LF]]))"
  using index_of_memchr parse_chunks [OF index_of_memchr] by blast

text \<open>
  C4. A parse error is terminal: the parser remembers it, and every later call returns no
  frame and the same error, whatever the input.
\<close>

theorem parse_error_terminal:
  assumes "parse mc p input = Some (q, Partial out e)"
  shows "parse mc q later = Some (feed q later, Partial [] e)"
proof -
  have "state q = Error e"
    using assms unfolding parse_def by (rule parse_loop_Partial)
  then show ?thesis
    by (simp add: parse_def parse_loop.simps try_parse_one_frame_def set_error_def feed_def)
qed

theorem parse_error_terminal_witness:
  "parse index_of \<lparr>state = Error InvalidLength, buf = [], stack = []\<rparr> ''PING'' =
   Some (feed \<lparr>state = Error InvalidLength, buf = [], stack = []\<rparr> ''PING'', Partial [] InvalidLength)"
proof -
  have "parse index_of Parser_new (''$-2'' @ CRLF) =
      Some (\<lparr>state = Error InvalidLength, buf = [], stack = []\<rparr>, Partial [] InvalidLength)"
    by (simp add: parser_eval)
  then show ?thesis by (rule parse_error_terminal)
qed

text \<open>
  C5. The type invariant: \<open>parse\<close> keeps every open array strictly below its capacity and every
  announced bulk length at most \<open>i64::MAX\<close>, so neither \<open>capacity() - len()\<close> nor \<open>len + 2\<close> can
  leave the range of \<open>usize\<close> and no push reallocates.
\<close>

theorem parse_keeps_invariant:
  assumes "parser_ok p" and "parse mc p input = Some (q, res)"
  shows "parser_ok q \<and> (\<forall>n. state q = ReadingBulkString n \<longrightarrow> n + 2 \<le> u64_max) \<and>
    (\<forall>v \<in> set (stack q). length (items v) < capacity v)"
proof -
  have "parser_ok (feed p input)"
    using assms(1) by (simp add: parser_ok_def)
  then have "parser_ok q"
    using parse_loop_ok assms(2) unfolding parse_def by blast
  then show ?thesis
    by (auto simp: parser_ok_def list_all_iff vec_open_def isize_max_def u64_max_def)
qed

theorem parse_keeps_invariant_witness:
  "parser_ok Parser_new \<and>
   parser_ok \<lparr>state = ReadingBulkString 5, buf = ''he'', stack = [\<lparr>capacity = 2, items = []\<rparr>]\<rparr>"
proof
  show ok: "parser_ok Parser_new"
    by (simp add: parser_ok_def Parser_new_def)
  have "parse index_of Parser_new (''*2'' @ CRLF @ ''$5'' @ CRLF @ ''he'') =
      Some (\<lparr>state = ReadingBulkString 5, buf = ''he'', stack = [\<lparr>capacity = 2, items = []\<rparr>]\<rparr>, Complete [])"
    by (simp add: parser_eval)
  from parse_keeps_invariant [OF ok this]
  show "parser_ok \<lparr>state = ReadingBulkString 5, buf = ''he'', stack = [\<lparr>capacity = 2, items = []\<rparr>]\<rparr>"
    by simp
qed

text \<open>
  C6. An array header announcing more elements than an allocation can hold makes the parser
  panic before any command is looked at: \<open>Vec::with_capacity\<close> is called with the client's number.
\<close>

theorem huge_array_header_panics:
  assumes "n \<le> isize_max" and "isize_max < n * size_of_Frame"
  shows "parse mc Parser_new (CHR ''*'' # nat_to_string n @ CRLF @ rest) = None"
proof -
  have "0 < n" using assms(2) by (cases n) simp_all
  then show ?thesis
    using assms
    by (simp add: parse_def feed_def Parser_new_def parse_loop.simps [of mc "at_start (_ # _) _"]
        try_parse_one_frame_eq try_parse_loop.simps parse_step_def step_start_def step_array_length_def
        read_nat_line sint_word_of_nat usize_try_from_def with_capacity_def)
qed

theorem huge_array_header_panics_witness:
  "parse index_of Parser_new (CHR ''*'' # nat_to_string (2 ^ 63 - 1) @ CRLF @ []) = None"
  by (rule huge_array_header_panics) (simp_all add: size_eval)

end
