(* ===== verification/Commands.thy ===== *)
theory Commands
  imports Resp_Parser
begin

text \<open>
  Errors (\<open>src/src/error.rs\<close>) and the decoding of a frame into a command
  (\<open>src/src/command.rs\<close>): every argument check with the error it reports, and the theorems that
  the decoding is the inverse of the documented request format and fails exactly as documented.
\<close>

section \<open>Errors\<close>

datatype Error =
    Io io_error
  | WrongArity (command: string) (given: usize) (expected: usize)
  | UnknownCommand
  | InvalidCommandFrame
  | WrongArgumentType

definition Error_from_io :: "io_error \<Rightarrow> Error" where
  "Error_from_io v = Io v"

definition Error_from_ParseError :: "ParseError \<Rightarrow> Error" where
  "Error_from_ParseError _ = InvalidCommandFrame"

section \<open>Commands\<close>

datatype Command =
    PING
  | GET bytes
  | SET bytes bytes
  | DEL bytes
  | EXPIRE bytes u64
  | TTL bytes
  | QUIT
  | NOOP
  | AUTH bytes

fun collect_bulk :: "Frame list \<Rightarrow> Error + bytes list" where
  "collect_bulk [] = Inr []"
| "collect_bulk (arg # args) =
     (case arg of
        Bulk (Some inner) \<Rightarrow>
          (case collect_bulk args of Inl e \<Rightarrow> Inl e | Inr rest \<Rightarrow> Inr (inner # rest))
      | _ \<Rightarrow> Inl InvalidCommandFrame)"

definition bulk_args :: "Frame \<Rightarrow> Error + bytes list" where
  "bulk_args value =
     (case value of
        Array (Some inner) \<Rightarrow> if inner \<noteq> [] then collect_bulk inner else Inl InvalidCommandFrame
      | _ \<Rightarrow> Inl InvalidCommandFrame)"

definition wrong_arity :: "string \<Rightarrow> usize \<Rightarrow> usize \<Rightarrow> Error" where
  "wrong_arity cmd g e = WrongArity cmd g e"

fun parse_ping :: "bytes list \<Rightarrow> Error + Command" where
  "parse_ping [] = Inr PING"
| "parse_ping argv = Inl (wrong_arity ''PING'' (length argv) 0)"

fun parse_quit :: "bytes list \<Rightarrow> Error + Command" where
  "parse_quit [] = Inr QUIT"
| "parse_quit argv = Inl (wrong_arity ''QUIT'' (length argv) 0)"

fun parse_get :: "bytes list \<Rightarrow> Error + Command" where
  "parse_get [key] = Inr (GET key)"
| "parse_get argv = Inl (wrong_arity ''GET'' (length argv) 1)"

fun parse_set :: "bytes list \<Rightarrow> Error + Command" where
  "parse_set [key, value] = Inr (SET key value)"
| "parse_set argv = Inl (wrong_arity ''SET'' (length argv) 2)"

fun parse_del :: "bytes list \<Rightarrow> Error + Command" where
  "parse_del [key] = Inr (DEL key)"
| "parse_del argv = Inl (wrong_arity ''DEL'' (length argv) 1)"

definition parse_u64_arg :: "bytes \<Rightarrow> Error + u64" where
  "parse_u64_arg value =
     (if \<not> is_utf8 value then Inl WrongArgumentType
      else case parse_u64 value of None \<Rightarrow> Inl WrongArgumentType | Some n \<Rightarrow> Inr n)"

fun parse_expire :: "bytes list \<Rightarrow> Error + Command" where
  "parse_expire [key, value] =
     (case parse_u64_arg value of Inl e \<Rightarrow> Inl e | Inr n \<Rightarrow> Inr (EXPIRE key n))"
| "parse_expire argv = Inl (wrong_arity ''EXPIRE'' (length argv) 2)"

fun parse_ttl :: "bytes list \<Rightarrow> Error + Command" where
  "parse_ttl [key] = Inr (TTL key)"
| "parse_ttl argv = Inl (wrong_arity ''TTL'' (length argv) 1)"

fun parse_auth :: "bytes list \<Rightarrow> Error + Command" where
  "parse_auth [key] = Inr (AUTH key)"
| "parse_auth argv = Inl (wrong_arity ''AUTH'' (length argv) 1)"

definition Command_try_from :: "Frame \<Rightarrow> Error + Command" where
  "Command_try_from value =
     (case bulk_args value of
        Inl e \<Rightarrow> Inl e
      | Inr [] \<Rightarrow> Inl InvalidCommandFrame
      | Inr (cmd # argv) \<Rightarrow>
          if eq_ignore_ascii_case cmd ''ping'' then parse_ping argv
          else if eq_ignore_ascii_case cmd ''quit'' then parse_quit argv
          else if eq_ignore_ascii_case cmd ''get'' then parse_get argv
          else if eq_ignore_ascii_case cmd ''set'' then parse_set argv
          else if eq_ignore_ascii_case cmd ''del'' then parse_del argv
          else if eq_ignore_ascii_case cmd ''expire'' then parse_expire argv
          else if eq_ignore_ascii_case cmd ''ttl'' then parse_ttl argv
          else if eq_ignore_ascii_case cmd ''auth'' then parse_auth argv
          else Inl UnknownCommand)"

fun Command_name :: "Command \<Rightarrow> string" where
  "Command_name PING = ''PING''"
| "Command_name (GET _) = ''GET''"
| "Command_name (SET _ _) = ''SET''"
| "Command_name (DEL _) = ''DEL''"
| "Command_name (EXPIRE _ _) = ''EXPIRE''"
| "Command_name (TTL _) = ''TTL''"
| "Command_name QUIT = ''QUIT''"
| "Command_name NOOP = ''NOOP''"
| "Command_name (AUTH _) = ''GET''"

section \<open>The request format\<close>

text \<open>
  The request format of the README: the keyword and the arguments as bulk strings. This is the
  specification the decoder is compared with. \<open>NOOP\<close> has no request.
\<close>

definition arity_table :: "(string \<times> nat) list" where
  "arity_table =
     [(''PING'', 0), (''QUIT'', 0), (''GET'', 1), (''SET'', 2), (''DEL'', 1), (''EXPIRE'', 2),
      (''TTL'', 1), (''AUTH'', 1)]"

fun request_words :: "Command \<Rightarrow> (string \<times> bytes list) option" where
  "request_words PING = Some (''PING'', [])"
| "request_words QUIT = Some (''QUIT'', [])"
| "request_words (GET k) = Some (''GET'', [k])"
| "request_words (SET k v) = Some (''SET'', [k, v])"
| "request_words (DEL k) = Some (''DEL'', [k])"
| "request_words (EXPIRE k n) = Some (''EXPIRE'', [k, nat_to_string (unat n)])"
| "request_words (TTL k) = Some (''TTL'', [k])"
| "request_words (AUTH k) = Some (''AUTH'', [k])"
| "request_words NOOP = None"

definition request_frame :: "bytes \<Rightarrow> bytes list \<Rightarrow> Frame" where
  "request_frame cmd args = Array (Some (map (\<lambda>a. Bulk (Some a)) (cmd # args)))"

lemma collect_bulk_map [simp]: "collect_bulk (map (\<lambda>a. Bulk (Some a)) as) = Inr as"
  by (induction as) auto

lemma bulk_args_request [simp]: "bulk_args (request_frame cmd args) = Inr (cmd # args)"
  by (simp add: bulk_args_def request_frame_def)

lemma collect_bulk_InrD: "collect_bulk fs = Inr as \<Longrightarrow> fs = map (\<lambda>a. Bulk (Some a)) as"
  by (induction fs arbitrary: as) (auto split: Frame.splits option.splits sum.splits)

lemma collect_bulk_Inr: "collect_bulk fs = Inr as \<longleftrightarrow> fs = map (\<lambda>a. Bulk (Some a)) as"
  using collect_bulk_InrD by auto

lemma collect_bulk_Inl: "collect_bulk fs = Inl e \<Longrightarrow> e = InvalidCommandFrame"
  by (induction fs) (auto split: Frame.splits option.splits sum.splits)

lemma bulk_args_Inr: "bulk_args f = Inr as \<longleftrightarrow> as \<noteq> [] \<and> f = request_frame (hd as) (tl as)"
  by (cases as)
    (auto simp: bulk_args_def request_frame_def collect_bulk_Inr split: Frame.splits option.splits)

lemma bulk_args_Inl: "bulk_args f = Inl e \<Longrightarrow> e = InvalidCommandFrame"
  by (auto simp: bulk_args_def dest: collect_bulk_Inl split: Frame.splits option.splits if_splits)

text \<open>Lower-casing the keywords, so that matching a keyword is one comparison of strings.\<close>

lemma lowercase_keywords:
  "map to_ascii_lowercase ''PING'' = ''ping''" "map to_ascii_lowercase ''QUIT'' = ''quit''"
  "map to_ascii_lowercase ''GET'' = ''get''" "map to_ascii_lowercase ''SET'' = ''set''"
  "map to_ascii_lowercase ''DEL'' = ''del''" "map to_ascii_lowercase ''EXPIRE'' = ''expire''"
  "map to_ascii_lowercase ''TTL'' = ''ttl''" "map to_ascii_lowercase ''AUTH'' = ''auth''"
  "map to_ascii_lowercase ''ping'' = ''ping''" "map to_ascii_lowercase ''quit'' = ''quit''"
  "map to_ascii_lowercase ''get'' = ''get''" "map to_ascii_lowercase ''set'' = ''set''"
  "map to_ascii_lowercase ''del'' = ''del''" "map to_ascii_lowercase ''expire'' = ''expire''"
  "map to_ascii_lowercase ''ttl'' = ''ttl''" "map to_ascii_lowercase ''auth'' = ''auth''"
  by (code_simp)+

lemma keyword_distinct:
  "eq_ignore_ascii_case cmd ''PING'' \<Longrightarrow> Command_try_from (request_frame cmd args) = parse_ping args"
  "eq_ignore_ascii_case cmd ''QUIT'' \<Longrightarrow> Command_try_from (request_frame cmd args) = parse_quit args"
  "eq_ignore_ascii_case cmd ''GET'' \<Longrightarrow> Command_try_from (request_frame cmd args) = parse_get args"
  "eq_ignore_ascii_case cmd ''SET'' \<Longrightarrow> Command_try_from (request_frame cmd args) = parse_set args"
  "eq_ignore_ascii_case cmd ''DEL'' \<Longrightarrow> Command_try_from (request_frame cmd args) = parse_del args"
  "eq_ignore_ascii_case cmd ''EXPIRE'' \<Longrightarrow> Command_try_from (request_frame cmd args) = parse_expire args"
  "eq_ignore_ascii_case cmd ''TTL'' \<Longrightarrow> Command_try_from (request_frame cmd args) = parse_ttl args"
  "eq_ignore_ascii_case cmd ''AUTH'' \<Longrightarrow> Command_try_from (request_frame cmd args) = parse_auth args"
  by (simp_all add: Command_try_from_def eq_ignore_ascii_case_def lowercase_keywords del: list.map)

lemma parse_u64_arg_print [simp]: "parse_u64_arg (nat_to_string (unat n)) = Inr n"
proof -
  have "unat n < 2 ^ 64"
    by (rule order_less_le_trans [OF unsigned_less]) simp
  then have "unat n \<le> u64_max" by (simp add: u64_max_def)
  then show ?thesis by (simp add: parse_u64_arg_def parse_u64_nat_to_string)
qed

lemma unknown_keyword:
  assumes "\<forall>(kw, n) \<in> set arity_table. \<not> eq_ignore_ascii_case cmd kw"
  shows "Command_try_from (request_frame cmd args) = Inl UnknownCommand"
  using assms
  by (simp add: arity_table_def Command_try_from_def eq_ignore_ascii_case_def lowercase_keywords
      del: list.map)

text \<open>
  Each argument decoder reports an arity error only for its own keyword and only when the number of
  arguments is not the expected one, an argument error only for the number of \<open>EXPIRE\<close>, and never
  an I/O error.
\<close>

lemma parse_Inl:
  "parse_ping as = Inl e \<longleftrightarrow> e = WrongArity ''PING'' (length as) 0 \<and> length as \<noteq> 0"
  "parse_quit as = Inl e \<longleftrightarrow> e = WrongArity ''QUIT'' (length as) 0 \<and> length as \<noteq> 0"
  "parse_get as = Inl e \<longleftrightarrow> e = WrongArity ''GET'' (length as) 1 \<and> length as \<noteq> 1"
  "parse_set as = Inl e \<longleftrightarrow> e = WrongArity ''SET'' (length as) 2 \<and> length as \<noteq> 2"
  "parse_del as = Inl e \<longleftrightarrow> e = WrongArity ''DEL'' (length as) 1 \<and> length as \<noteq> 1"
  "parse_expire as = Inl e \<longleftrightarrow>
     e = WrongArity ''EXPIRE'' (length as) 2 \<and> length as \<noteq> 2 \<or>
     e = WrongArgumentType \<and> (\<exists>k v. as = [k, v] \<and> (is_utf8 v \<longrightarrow> parse_u64 v = None))"
  "parse_ttl as = Inl e \<longleftrightarrow> e = WrongArity ''TTL'' (length as) 1 \<and> length as \<noteq> 1"
  "parse_auth as = Inl e \<longleftrightarrow> e = WrongArity ''AUTH'' (length as) 1 \<and> length as \<noteq> 1"
proof goal_cases
  case 1 then show ?case by (cases as rule: parse_ping.cases) (auto simp: wrong_arity_def)
next
  case 2 then show ?case by (cases as rule: parse_quit.cases) (auto simp: wrong_arity_def)
next
  case 3 then show ?case by (cases as rule: parse_get.cases) (auto simp: wrong_arity_def)
next
  case 4 then show ?case by (cases as rule: parse_set.cases) (auto simp: wrong_arity_def)
next
  case 5 then show ?case by (cases as rule: parse_del.cases) (auto simp: wrong_arity_def)
next
  case 6 then show ?case
    by (cases as rule: parse_expire.cases)
      (auto simp: wrong_arity_def parse_u64_arg_def split: sum.splits option.splits if_splits)
next
  case 7 then show ?case by (cases as rule: parse_ttl.cases) (auto simp: wrong_arity_def)
next
  case 8 then show ?case by (cases as rule: parse_auth.cases) (auto simp: wrong_arity_def)
qed

lemma keyword_cases:
  obtains (known) kw n where "(kw, n) \<in> set arity_table" "eq_ignore_ascii_case cmd kw"
  | (unknown) "\<forall>(kw, n) \<in> set arity_table. \<not> eq_ignore_ascii_case cmd kw"
  by blast

lemma keyword_unique:
  assumes "(kw, n) \<in> set arity_table" and "(kw', n') \<in> set arity_table"
    and "eq_ignore_ascii_case cmd kw" and "eq_ignore_ascii_case cmd kw'"
  shows "kw' = kw \<and> n' = n"
  using assms
  by (auto simp: arity_table_def eq_ignore_ascii_case_def lowercase_keywords simp del: list.map)

lemma request_Inl:
  assumes "(kw, n) \<in> set arity_table" and "eq_ignore_ascii_case cmd kw"
  shows "Command_try_from (request_frame cmd args) = Inl e \<longleftrightarrow>
    e = WrongArity kw (length args) n \<and> length args \<noteq> n \<or>
    e = WrongArgumentType \<and> kw = ''EXPIRE'' \<and>
      (\<exists>k v. args = [k, v] \<and> (is_utf8 v \<longrightarrow> parse_u64 v = None))"
  using assms by (auto simp: arity_table_def keyword_distinct parse_Inl simp del: parse_expire.simps)

lemma request_WrongArity:
  "Command_try_from (request_frame cmd args) = Inl (WrongArity kw g e) \<longleftrightarrow>
     (kw, e) \<in> set arity_table \<and> eq_ignore_ascii_case cmd kw \<and> g = length args \<and> g \<noteq> e"
proof (cases cmd rule: keyword_cases)
  case (known kw' n)
  then show ?thesis
    using keyword_unique [OF known(1) _ known(2), of kw e] by (auto simp: request_Inl)
next
  case unknown
  then show ?thesis by (auto simp: unknown_keyword)
qed

lemma request_WrongArgumentType:
  "Command_try_from (request_frame cmd args) = Inl WrongArgumentType \<longleftrightarrow>
     eq_ignore_ascii_case cmd ''EXPIRE'' \<and>
     (\<exists>k v. args = [k, v] \<and> (is_utf8 v \<longrightarrow> parse_u64 v = None))"
proof (cases cmd rule: keyword_cases)
  case (known kw n)
  have "(''EXPIRE'', 2) \<in> set arity_table" by (simp add: arity_table_def)
  then show ?thesis
    using keyword_unique [OF known(1) _ known(2), of "''EXPIRE''" 2] known by (auto simp: request_Inl)
next
  case unknown
  moreover have "(''EXPIRE'', 2) \<in> set arity_table" by (simp add: arity_table_def)
  ultimately show ?thesis by (auto simp: unknown_keyword)
qed

lemma request_not_Io: "Command_try_from f \<noteq> Inl (Io x)"
proof (cases "bulk_args f")
  case (Inl e)
  then show ?thesis using bulk_args_Inl [OF Inl] by (auto simp: Command_try_from_def)
next
  case (Inr as)
  then obtain c0 as0 where f: "f = request_frame c0 as0" by (auto simp: bulk_args_Inr)
  show ?thesis
    unfolding f by (cases c0 rule: keyword_cases) (auto simp: request_Inl unknown_keyword)
qed

section \<open>Correctness of the decoding\<close>

text \<open>
  C7. Round trip of commands: a request in the documented format, with its keyword in any mix of
  cases and arbitrary bytes as keys and values, decodes to exactly the command it was made from.
\<close>

theorem command_round_trip:
  assumes "request_words c = Some (kw, args)" and "eq_ignore_ascii_case cmd kw"
  shows "Command_try_from (request_frame cmd args) = Inr c"
  using assms by (cases c) (auto simp: keyword_distinct)

theorem command_round_trip_witness:
  "Command_try_from (request_frame ''eXpIrE'' [''k'', nat_to_string (unat (60 :: u64))]) = Inr (EXPIRE ''k'' 60)"
proof (rule command_round_trip)
  show "request_words (EXPIRE ''k'' 60) = Some (''EXPIRE'', [''k'', nat_to_string (unat (60 :: u64))])"
    by simp
  show "eq_ignore_ascii_case ''eXpIrE'' ''EXPIRE''"
    unfolding eq_ignore_ascii_case_def by code_simp
qed

text \<open>
  C8. Error discrimination, each error exactly when it is due. Decoding reports
  \<open>InvalidCommandFrame\<close> if and only if the frame is not a non-empty array of non-nil bulk strings;
  \<open>UnknownCommand\<close> if and only if the first word of the request is no keyword in any case;
  \<open>WrongArity kw g e\<close> if and only if the first word is the keyword \<open>kw\<close>, which takes \<open>e\<close> arguments,
  and the request has \<open>g\<close> arguments with \<open>g\<close> other than \<open>e\<close>; \<open>WrongArgumentType\<close> if and only if it is an
  \<open>EXPIRE\<close> request with two arguments of which the second is not the text of a 64-bit unsigned
  number; and an I/O error never.
\<close>

theorem command_errors:
  "(Command_try_from f = Inl InvalidCommandFrame \<longleftrightarrow> (\<nexists>cmd args. f = request_frame cmd args)) \<and>
   (Command_try_from (request_frame cmd args) = Inl UnknownCommand \<longleftrightarrow>
      (\<nexists>kw n. (kw, n) \<in> set arity_table \<and> eq_ignore_ascii_case cmd kw)) \<and>
   (Command_try_from (request_frame cmd args) = Inl (WrongArity kw g e) \<longleftrightarrow>
      (kw, e) \<in> set arity_table \<and> eq_ignore_ascii_case cmd kw \<and> g = length args \<and> g \<noteq> e) \<and>
   (Command_try_from (request_frame cmd args) = Inl WrongArgumentType \<longleftrightarrow>
      eq_ignore_ascii_case cmd ''EXPIRE'' \<and>
      (\<exists>key v. args = [key, v] \<and> (is_utf8 v \<longrightarrow> parse_u64 v = None))) \<and>
   Command_try_from f \<noteq> Inl (Io x)"
proof (intro conjI request_WrongArity request_WrongArgumentType request_not_Io)
  show "Command_try_from f = Inl InvalidCommandFrame \<longleftrightarrow> (\<nexists>cmd args. f = request_frame cmd args)"
  proof (cases "bulk_args f")
    case (Inl e)
    then show ?thesis
      using bulk_args_Inl [OF Inl] by (auto simp: Command_try_from_def)
  next
    case (Inr as)
    then obtain c0 as0 where f: "f = request_frame c0 as0" by (auto simp: bulk_args_Inr)
    have "Command_try_from f \<noteq> Inl InvalidCommandFrame"
      unfolding f by (cases c0 rule: keyword_cases) (auto simp: request_Inl unknown_keyword)
    with f show ?thesis by blast
  qed
  show "Command_try_from (request_frame cmd args) = Inl UnknownCommand \<longleftrightarrow>
      (\<nexists>kw n. (kw, n) \<in> set arity_table \<and> eq_ignore_ascii_case cmd kw)"
    by (cases cmd rule: keyword_cases) (auto simp: request_Inl unknown_keyword)
qed

theorem command_errors_witness:
  "Command_try_from (request_frame ''GET'' []) = Inl (WrongArity ''GET'' 0 1) \<and>
   Command_try_from (request_frame ''EXPIRE'' [''k'', ''ten'']) = Inl WrongArgumentType \<and>
   Command_try_from (request_frame ''EXPIRE'' [''k'', ''ten'']) \<noteq> Inl (WrongArity ''EXPIRE'' 2 2)"
proof (intro conjI)
  show "Command_try_from (request_frame ''GET'' []) = Inl (WrongArity ''GET'' 0 1)"
    using command_errors [of "Bulk None" "''GET''" "[]" "''GET''" 0 1] by (simp add: arity_table_def)
  have num: "parse_u64 ''ten'' = None" by code_simp
  then show "Command_try_from (request_frame ''EXPIRE'' [''k'', ''ten'']) = Inl WrongArgumentType"
    using command_errors [of "Bulk None" "''EXPIRE''" "[''k'', ''ten'']"] by simp
  show "Command_try_from (request_frame ''EXPIRE'' [''k'', ''ten'']) \<noteq> Inl (WrongArity ''EXPIRE'' 2 2)"
    using command_errors [of "Bulk None" "''EXPIRE''" "[''k'', ''ten'']" "''EXPIRE''" 2 2] by simp
qed

text \<open>
  The name \<open>Command::name\<close> gives to an \<open>AUTH\<close> command is \<open>GET\<close>, not its own keyword; the
  name of every other command that has a request is its keyword.
\<close>

lemma command_name_keyword:
  "Command_name (AUTH k) = ''GET'' \<and>
   (\<forall>c kw args. request_words c = Some (kw, args) \<longrightarrow> Command_name c = kw \<or> (\<exists>k. c = AUTH k))"
proof (intro conjI allI impI)
  fix c kw args
  assume "request_words c = Some (kw, args)"
  then show "Command_name c = kw \<or> (\<exists>k. c = AUTH k)" by (cases c) auto
qed simp

end
