(* ===== verification/Kv_Store.thy ===== *)
theory Kv_Store
  imports Rust_Std
begin

text \<open>
  The shared store (\<open>src/src/store.rs\<close>): the hash map of values with expirations, the heap of
  pending expirations and the wake-up flag of the sweeper, with every operation as a function of
  the clock reading it makes. An operation runs under the write lock of what it changes, so it is
  one atomic step; the interleaving with the sweeper is in theory \<open>Sweeper\<close>. The abstract view of
  a store at a time is the partial map of its live keys, and the interface \<open>kv_store\<close> states what
  the connection handler relies on.
\<close>

type_synonym Key = bytes

record StoreValue =
  stored_value :: bytes
  expiration_time :: "Instant option"

record Store =
  hashmap :: "(Key, StoreValue) HashMap"
  expiration_heap :: "(Instant \<times> Key) list"
  wakeup :: bool

definition from_parts :: "(Key, StoreValue) HashMap \<Rightarrow> (Instant \<times> Key) list \<Rightarrow> Store" where
  "from_parts m h = \<lparr>hashmap = m, expiration_heap = h, wakeup = False\<rparr>"

definition Store_new :: Store where
  "Store_new = from_parts hm_new heap_new"

definition Store_default :: Store where
  "Store_default = Store_new"

definition is_expired :: "StoreValue \<Rightarrow> Instant \<Rightarrow> bool" where
  "is_expired v now = (case expiration_time v of None \<Rightarrow> False | Some t \<Rightarrow> t \<le> now)"

definition Store_get :: "Store \<Rightarrow> Instant \<Rightarrow> Key \<Rightarrow> bytes option" where
  "Store_get s now key =
     (case hm_get key (hashmap s) of
        None \<Rightarrow> None
      | Some v \<Rightarrow> if is_expired v now then None else Some (stored_value v))"

definition Store_set :: "Store \<Rightarrow> Key \<Rightarrow> bytes \<Rightarrow> bytes option \<times> Store" where
  "Store_set s key v =
     (map_option stored_value (hm_get key (hashmap s)),
      s\<lparr>hashmap := hm_insert key \<lparr>stored_value = v, expiration_time = None\<rparr> (hashmap s)\<rparr>)"

definition Store_del :: "Store \<Rightarrow> Instant \<Rightarrow> Key \<Rightarrow> bytes option \<times> Store" where
  "Store_del s now key =
     (case hm_get key (hashmap s) of
        None \<Rightarrow> None
      | Some v \<Rightarrow> if is_expired v now then None else Some (stored_value v),
      s\<lparr>hashmap := hm_remove key (hashmap s)\<rparr>)"

text \<open>
  \<open>now + ttl_duration\<close> panics on overflow. The entry has been taken out of the map by then and
  the locks do not poison, so the panic (\<open>None\<close>) leaves the store without the key.
\<close>

definition Store_expire :: "Store \<Rightarrow> Instant \<Rightarrow> Key \<Rightarrow> u64 \<Rightarrow> u64 option \<times> Store" where
  "Store_expire s now key ttl =
     (let removed = s\<lparr>hashmap := hm_remove key (hashmap s)\<rparr> in
      case hm_get key (hashmap s) of
        None \<Rightarrow> (Some 0, s)
      | Some v \<Rightarrow>
          if is_expired v now then (Some 0, removed) else
          case checked_add now (duration_from_secs ttl) of
            None \<Rightarrow> (None, removed)
          | Some expires \<Rightarrow>
              (Some 1,
               s\<lparr>hashmap := hm_insert key (v\<lparr>expiration_time := Some expires\<rparr>) (hm_remove key (hashmap s)),
                 expiration_heap := heap_push (expires, key) (expiration_heap s),
                 wakeup := True\<rparr>))"

definition Store_ttl :: "Store \<Rightarrow> Instant \<Rightarrow> Key \<Rightarrow> i64" where
  "Store_ttl s now key =
     (case hm_get key (hashmap s) of
        None \<Rightarrow> -2
      | Some v \<Rightarrow>
          if is_expired v now then -2 else
          case expiration_time v of
            None \<Rightarrow> -1
          | Some expires_on \<Rightarrow> word_of_nat (as_secs (duration_since expires_on now)))"

text \<open>
  The sweep has two critical sections. Under the heap lock it pops every due entry and collects
  the keys; under the map lock it removes those of them that are expired at the same reading.
\<close>

function sweep_heap :: "Instant \<Rightarrow> (Instant \<times> Key) list \<Rightarrow> Key list \<Rightarrow> Key list \<times> (Instant \<times> Key) list" where
  "sweep_heap now heap candidates =
     (case heap_peek heap of
        Some (when, key) \<Rightarrow>
          if when \<le> now then sweep_heap now (heap_pop heap) (List.insert key candidates)
          else (candidates, heap)
      | None \<Rightarrow> (candidates, heap))"
  by pat_completeness auto
termination
  by (relation "measure (\<lambda>(now, heap, c). length heap)")
    (auto simp: heap_peek_def heap_pop_def split: list.splits)

declare sweep_heap.simps [simp del]

definition entry_expired :: "Instant \<Rightarrow> StoreValue option \<Rightarrow> bool" where
  "entry_expired now x = (case x of None \<Rightarrow> False | Some v \<Rightarrow> is_expired v now)"

definition sweep_map :: "Instant \<Rightarrow> Key list \<Rightarrow> (Key, StoreValue) HashMap \<Rightarrow> (Key, StoreValue) HashMap" where
  "sweep_map now candidates m =
     fold (\<lambda>key m. if entry_expired now (hm_get key m) then hm_remove key m else m) candidates m"

definition sweep_expired_once :: "Store \<Rightarrow> Instant \<Rightarrow> Store" where
  "sweep_expired_once s now =
     (let (candidates, heap) = sweep_heap now (expiration_heap s) [] in
      s\<lparr>expiration_heap := heap, hashmap := sweep_map now candidates (hashmap s)\<rparr>)"

lemmas store_defs = Store_get_def Store_set_def Store_del_def Store_expire_def Store_ttl_def

section \<open>Abstract view and invariant\<close>

type_synonym view = "Key \<Rightarrow> (bytes \<times> Instant option) option"

definition live :: "Store \<Rightarrow> Instant \<Rightarrow> view" where
  "live s now k =
     (case hm_get k (hashmap s) of
        None \<Rightarrow> None
      | Some v \<Rightarrow> if is_expired v now then None else Some (stored_value v, expiration_time v))"

text \<open>Every expiration in the map has its entry in the heap, and is a representable instant.\<close>

definition store_ok :: "Store \<Rightarrow> bool" where
  "store_ok s \<longleftrightarrow> hm_invar (hashmap s) \<and> sorted (expiration_heap s) \<and>
     (\<forall>k v t. hm_get k (hashmap s) = Some v \<longrightarrow> expiration_time v = Some t \<longrightarrow>
        (t, k) \<in> set (expiration_heap s) \<and> t < instant_limit)"

lemma store_ok_new [simp]: "store_ok Store_new"
  by (simp add: store_ok_def Store_new_def from_parts_def)

lemma store_ok_invar [simp]: "store_ok s \<Longrightarrow> hm_invar (hashmap s)"
  by (simp add: store_ok_def)

lemma checked_add_Some: "checked_add t d = Some e \<longleftrightarrow> e = t + d \<and> t + d < instant_limit"
  by (auto simp: checked_add_def)

lemma store_ok_set: "store_ok s \<Longrightarrow> store_ok (snd (Store_set s k v))"
  by (auto simp: store_ok_def Store_set_def split: if_splits)

lemma store_ok_del: "store_ok s \<Longrightarrow> store_ok (snd (Store_del s now k))"
  by (auto simp: store_ok_def Store_del_def split: if_splits)

lemma store_ok_expire: "store_ok s \<Longrightarrow> store_ok (snd (Store_expire s now k n))"
  by (auto simp: store_ok_def Store_expire_def Let_def checked_add_Some
      split: option.splits if_splits)

lemma live_set: "store_ok s \<Longrightarrow> live (snd (Store_set s k v)) t = (live s t)(k \<mapsto> (v, None))"
  by (auto simp: live_def Store_set_def is_expired_def fun_eq_iff)

lemma live_del: "store_ok s \<Longrightarrow> live (snd (Store_del s now k)) t = (live s t)(k := None)"
  by (auto simp: live_def Store_del_def fun_eq_iff)

lemma live_Some:
  "live s now k = Some (v, x) \<longleftrightarrow>
     (\<exists>sv. hm_get k (hashmap s) = Some sv \<and> \<not> is_expired sv now \<and> v = stored_value sv \<and> x = expiration_time sv)"
  by (auto simp: live_def split: option.splits)

lemma live_time:
  "now \<le> t \<Longrightarrow> live s t k =
     (case live s now k of None \<Rightarrow> None
      | Some (v, x) \<Rightarrow> if (\<exists>e. x = Some e \<and> e \<le> t) then None else Some (v, x))"
  by (auto simp: live_def is_expired_def split: option.splits)

lemma expire_live:
  assumes "store_ok s" "live s now k = Some (v, x)"
    and "checked_add now (duration_from_secs n) = Some e"
  shows "fst (Store_expire s now k n) = Some 1"
    and "live (snd (Store_expire s now k n)) t = (live s t)(k := if e \<le> t then None else Some (v, Some e))"
  using assms
  by (auto simp: live_Some Store_expire_def Let_def live_def is_expired_def fun_eq_iff
      split: option.splits if_splits)

lemma is_expired_mono: "is_expired v now \<Longrightarrow> now \<le> t \<Longrightarrow> is_expired v t"
  by (auto simp: is_expired_def split: option.splits)

lemma live_None:
  "live s now k = None \<longleftrightarrow>
     hm_get k (hashmap s) = None \<or> (\<exists>v. hm_get k (hashmap s) = Some v \<and> is_expired v now)"
  by (cases "hm_get k (hashmap s)") (auto simp: live_def)

lemma expire_missing:
  assumes "store_ok s" "live s now k = None"
  shows "fst (Store_expire s now k n) = Some 0"
    and "now \<le> t \<Longrightarrow> live (snd (Store_expire s now k n)) t = live s t"
proof -
  have m: "hm_invar (hashmap s)" using assms(1) by simp
  have none: "\<forall>v. hm_get k (hashmap s) = Some v \<longrightarrow> is_expired v now"
    using assms(2) by (auto simp: live_None)
  then show "fst (Store_expire s now k n) = Some 0"
    by (auto simp: Store_expire_def Let_def split: option.split)
  show "live (snd (Store_expire s now k n)) t = live s t" if "now \<le> t"
  proof (cases "hm_get k (hashmap s)")
    case (Some v)
    with none that have "is_expired v now" "is_expired v t" by (auto intro: is_expired_mono)
    with Some m show ?thesis by (auto simp: Store_expire_def live_def fun_eq_iff)
  qed (simp add: Store_expire_def)
qed

lemma expire_overflow:
  assumes "store_ok s" "live s now k = Some (v, x)"
    and "checked_add now (duration_from_secs n) = None"
  shows "fst (Store_expire s now k n) = None"
    and "live (snd (Store_expire s now k n)) t = (live s t)(k := None)"
  using assms
  by (auto simp: live_Some Store_expire_def Let_def live_def fun_eq_iff
      split: option.splits if_splits)

lemma del_any_reading: "snd (Store_del s now k) = snd (Store_del s t k)"
  by (simp add: Store_del_def)

lemma get_live: "Store_get s now k = map_option fst (live s now k)"
  by (auto simp: Store_get_def live_def split: option.splits)

lemma del_live: "fst (Store_del s now k) = map_option fst (live s now k)"
  by (auto simp: Store_del_def live_def split: option.splits)

lemma ttl_live:
  "Store_ttl s now k =
     (case live s now k of None \<Rightarrow> -2 | Some (v, None) \<Rightarrow> -1
      | Some (v, Some e) \<Rightarrow> word_of_nat (as_secs (duration_since e now)))"
  by (auto simp: Store_ttl_def live_def split: option.splits)

lemma live_bound: "store_ok s \<Longrightarrow> live s now k = Some (v, Some e) \<Longrightarrow> now < e \<and> e < instant_limit"
proof -
  assume ok: "store_ok s" and "live s now k = Some (v, Some e)"
  then obtain sv where sv: "hm_get k (hashmap s) = Some sv" "\<not> is_expired sv now" "expiration_time sv = Some e"
    by (auto simp: live_Some)
  then have "now < e" by (simp add: is_expired_def)
  moreover have "e < instant_limit"
    using ok sv unfolding store_ok_def by blast
  ultimately show ?thesis by simp
qed

section \<open>Sweeping\<close>

lemma sorted_pair_fst: "sorted ((a :: nat, b :: Key) # xs) \<Longrightarrow> (t, k) \<in> set xs \<Longrightarrow> a \<le> t"
  by (auto simp: less_eq_prod_def)

lemma sweep_heap_list [simp]:
  "sweep_heap now [] c = (c, [])"
  "sweep_heap now ((w, k) # xs) c =
     (if w \<le> now then sweep_heap now xs (List.insert k c) else (c, (w, k) # xs))"
  by (subst sweep_heap.simps, simp add: heap_peek_def heap_pop_def)+

lemma sweep_heap_spec:
  assumes "sorted h"
  shows "snd (sweep_heap now h c) = filter (\<lambda>(t, k). now < t) h"
    and "set (fst (sweep_heap now h c)) = set c \<union> {k. \<exists>t \<le> now. (t, k) \<in> set h}"
proof -
  have "snd (sweep_heap now h c) = filter (\<lambda>(t, k). now < t) h \<and>
      set (fst (sweep_heap now h c)) = set c \<union> {k. \<exists>t \<le> now. (t, k) \<in> set h}"
    using assms
  proof (induction h arbitrary: c)
    case (Cons x xs)
    obtain w k where x: "x = (w, k)" by fastforce
    show ?case
    proof (cases "w \<le> now")
      case True
      with Cons x show ?thesis by auto
    next
      case False
      then have late: "\<forall>(t, k) \<in> set xs. now < t"
        using sorted_pair_fst [of w k xs] Cons.prems x by fastforce
      then have "filter (\<lambda>(t, k). now < t) xs = xs"
        by (simp add: filter_id_conv)
      with False x late show ?thesis by force
    qed
  qed simp
  then show "snd (sweep_heap now h c) = filter (\<lambda>(t, k). now < t) h"
    and "set (fst (sweep_heap now h c)) = set c \<union> {k. \<exists>t \<le> now. (t, k) \<in> set h}"
    by blast+
qed

lemma sweep_map_invar [simp]: "hm_invar m \<Longrightarrow> hm_invar (sweep_map now cs m)"
  unfolding sweep_map_def by (rule hm.fold_remove_invar)

lemma sweep_map_get:
  "hm_invar m \<Longrightarrow> hm_get k (sweep_map now cs m) =
     (if k \<in> set cs \<and> entry_expired now (hm_get k m) then None else hm_get k m)"
  unfolding sweep_map_def
  by (rule hm.fold_remove_get) (simp_all add: entry_expired_def)

lemma entry_expired_Some [simp]: "entry_expired now (Some v) = is_expired v now"
  by (simp add: entry_expired_def)

lemma sweep_parts:
  assumes "store_ok s"
  shows "expiration_heap (sweep_expired_once s now) = filter (\<lambda>(t, k). now < t) (expiration_heap s)"
    and "hm_get k (hashmap (sweep_expired_once s now)) =
      (if entry_expired now (hm_get k (hashmap s)) then None else hm_get k (hashmap s))"
    and "wakeup (sweep_expired_once s now) = wakeup s"
    and "hm_invar (hashmap (sweep_expired_once s now))"
proof -
  have srt: "sorted (expiration_heap s)" using assms by (simp add: store_ok_def)
  let ?sh = "sweep_heap now (expiration_heap s) []"
  have sw: "sweep_expired_once s now =
      s\<lparr>expiration_heap := snd ?sh, hashmap := sweep_map now (fst ?sh) (hashmap s)\<rparr>"
    by (simp add: sweep_expired_once_def case_prod_unfold Let_def)
  show "expiration_heap (sweep_expired_once s now) = filter (\<lambda>(t, k). now < t) (expiration_heap s)"
    by (simp add: sw sweep_heap_spec [OF srt])
  have "k \<in> set (fst ?sh)" if "entry_expired now (hm_get k (hashmap s))"
    using that assms
    by (auto simp: sweep_heap_spec [OF srt] entry_expired_def is_expired_def store_ok_def
        split: option.splits)
  then show "hm_get k (hashmap (sweep_expired_once s now)) =
      (if entry_expired now (hm_get k (hashmap s)) then None else hm_get k (hashmap s))"
    using assms by (simp add: sw sweep_map_get)
  show "wakeup (sweep_expired_once s now) = wakeup s" "hm_invar (hashmap (sweep_expired_once s now))"
    using assms by (simp_all add: sw)
qed

lemma store_ok_sweep: "store_ok s \<Longrightarrow> store_ok (sweep_expired_once s now)"
  unfolding store_ok_def [of "sweep_expired_once s now"]
  by (auto simp: sweep_parts entry_expired_def is_expired_def store_ok_def
      split: if_splits option.splits intro: sorted_wrt_filter)

lemma live_sweep: "store_ok s \<Longrightarrow> now \<le> t \<Longrightarrow> live (sweep_expired_once s now) t = live s t"
  by (auto simp: live_def sweep_parts fun_eq_iff split: option.split intro: is_expired_mono)

section \<open>The contract of a key-value store with expirations\<close>

locale kv_store =
  fixes inv :: "'s \<Rightarrow> bool"
    and abs :: "'s \<Rightarrow> Instant \<Rightarrow> view"
    and get :: "'s \<Rightarrow> Instant \<Rightarrow> Key \<Rightarrow> bytes option"
    and put :: "'s \<Rightarrow> Key \<Rightarrow> bytes \<Rightarrow> bytes option \<times> 's"
    and del :: "'s \<Rightarrow> Instant \<Rightarrow> Key \<Rightarrow> bytes option \<times> 's"
    and expire :: "'s \<Rightarrow> Instant \<Rightarrow> Key \<Rightarrow> u64 \<Rightarrow> u64 option \<times> 's"
    and ttl :: "'s \<Rightarrow> Instant \<Rightarrow> Key \<Rightarrow> i64"
  assumes inv_put: "inv s \<Longrightarrow> inv (snd (put s k v))"
    and inv_del: "inv s \<Longrightarrow> inv (snd (del s now k))"
    and inv_expire: "inv s \<Longrightarrow> inv (snd (expire s now k n))"
    and get_abs: "inv s \<Longrightarrow> get s now k = map_option fst (abs s now k)"
    and abs_put: "inv s \<Longrightarrow> abs (snd (put s k v)) t = (abs s t)(k \<mapsto> (v, None))"
    and del_abs: "inv s \<Longrightarrow> fst (del s now k) = map_option fst (abs s now k)"
    and abs_del: "inv s \<Longrightarrow> abs (snd (del s now k)) t = (abs s t)(k := None)"
    and expire_none: "inv s \<Longrightarrow> abs s now k = None \<Longrightarrow> now \<le> t \<Longrightarrow>
      fst (expire s now k n) = Some 0 \<and> abs (snd (expire s now k n)) t = abs s t"
    and expire_some: "inv s \<Longrightarrow> abs s now k = Some (v, x) \<Longrightarrow>
      checked_add now (duration_from_secs n) = Some e \<Longrightarrow>
      fst (expire s now k n) = Some 1 \<and>
      abs (snd (expire s now k n)) t = (abs s t)(k := if e \<le> t then None else Some (v, Some e))"
    and ttl_abs: "inv s \<Longrightarrow> ttl s now k =
      (case abs s now k of None \<Rightarrow> -2 | Some (v, None) \<Rightarrow> -1
       | Some (v, Some e) \<Rightarrow> word_of_nat (as_secs (duration_since e now)))"
    and abs_bound: "inv s \<Longrightarrow> abs s now k = Some (v, Some e) \<Longrightarrow> now < e \<and> e < instant_limit"
begin

lemma get_put: "inv s \<Longrightarrow> get (snd (put s k v)) t k' = (if k' = k then Some v else get s t k')"
  by (simp add: get_abs inv_put abs_put)

lemma get_del: "inv s \<Longrightarrow> get (snd (del s now k)) t k' = (if k' = k then None else get s t k')"
  by (simp add: get_abs inv_del abs_del)

lemma ttl_put: "inv s \<Longrightarrow> ttl (snd (put s k v)) t k = -1"
  by (simp add: ttl_abs inv_put abs_put)

lemma ttl_value:
  assumes "inv s" "abs s now k = Some (v, Some e)"
  shows "sint (ttl s now k) = int ((e - now) div 10 ^ 9)"
proof -
  have "e - now < 2 ^ 63 * 10 ^ 9"
    using abs_bound [OF assms] unfolding instant_limit_def by linarith
  then have "(e - now) div 10 ^ 9 \<le> isize_max"
    unfolding isize_max_def by (simp add: div_le_mono less_mult_imp_div_less flip: less_Suc_eq_le)
  then show ?thesis
    using assms
    by (simp add: ttl_abs as_secs_def duration_since_def isize_max_def signed_of_nat
        signed_take_bit_int_eq_self)
qed

lemma ttl_cases:
  "inv s \<Longrightarrow> sint (ttl s now k) = -2 \<longleftrightarrow> get s now k = None"
  "inv s \<Longrightarrow> sint (ttl s now k) = -1 \<longleftrightarrow> (\<exists>v. abs s now k = Some (v, None))"
  "inv s \<Longrightarrow> -2 \<le> sint (ttl s now k)"
proof -
  consider "abs s now k = None" | v where "abs s now k = Some (v, None)"
    | v e where "abs s now k = Some (v, Some e)"
    by (metis not_Some_eq prod.exhaust)
  note * = this
  show "inv s \<Longrightarrow> sint (ttl s now k) = -2 \<longleftrightarrow> get s now k = None"
    using * ttl_value [of s now k] by cases (auto simp: ttl_abs get_abs)
  show "inv s \<Longrightarrow> sint (ttl s now k) = -1 \<longleftrightarrow> (\<exists>v. abs s now k = Some (v, None))"
    using * ttl_value [of s now k] by cases (auto simp: ttl_abs)
  show "inv s \<Longrightarrow> -2 \<le> sint (ttl s now k)"
    using * ttl_value [of s now k] by cases (auto simp: ttl_abs)
qed

lemma lifetime:
  assumes "inv s" "get s now k = Some v" "checked_add now (duration_from_secs n) = Some e"
  shows "get (snd (expire s now k n)) t k = (if e \<le> t then None else Some v)"
    and "k' \<noteq> k \<Longrightarrow> get (snd (expire s now k n)) t k' = get s t k'"
    and "t < e \<Longrightarrow> sint (ttl (snd (expire s now k n)) t k) = int ((e - t) div 10 ^ 9)"
proof -
  obtain x where x: "abs s now k = Some (v, x)"
    using assms by (auto simp: get_abs)
  note ab = expire_some [OF assms(1) x assms(3), of t]
  show "get (snd (expire s now k n)) t k = (if e \<le> t then None else Some v)"
    and "k' \<noteq> k \<Longrightarrow> get (snd (expire s now k n)) t k' = get s t k'"
    using ab assms(1) by (simp_all add: get_abs inv_expire)
  show "sint (ttl (snd (expire s now k n)) t k) = int ((e - t) div 10 ^ 9)" if "t < e"
    using ab that by (intro ttl_value [of _ _ _ v]) (simp_all add: inv_expire assms(1))
qed

end

interpretation kv: kv_store store_ok live Store_get Store_set Store_del Store_expire Store_ttl
  by unfold_locales
    (auto simp: store_ok_set store_ok_del store_ok_expire get_live live_set del_live live_del
      expire_missing expire_live ttl_live dest: live_bound)

section \<open>Correctness of the store\<close>

text \<open>
  C10. Set and get: after \<open>set\<close> the key reads back the value at every time (any earlier expiration
  is gone), its TTL is -1, and no other key is affected.
\<close>

theorem store_set_get:
  assumes "store_ok s"
  shows "Store_get (snd (Store_set s k v)) t k' = (if k' = k then Some v else Store_get s t k') \<and>
    Store_ttl (snd (Store_set s k v)) t k = -1"
  using kv.get_put [OF assms] kv.ttl_put [OF assms] by simp

theorem store_set_get_witness:
  "Store_get (snd (Store_set Store_new ''k'' ''v'')) 7 ''k'' = Some ''v''"
  using store_set_get [OF store_ok_new, of "''k''" "''v''" 7 "''k''"] by simp

text \<open>
  C11. Lifetime: \<open>expire\<close> with $n$ seconds on a live key keeps it readable strictly before the
  deadline and missing from the deadline on, for every later reading of the clock; the other keys
  are not affected; and the TTL in between is the remaining time rounded down to whole seconds.
\<close>

theorem store_expire_lifetime:
  assumes "store_ok s" and "Store_get s now k = Some v"
    and "now + unat n * 10 ^ 9 < instant_limit"
  shows "Store_get (snd (Store_expire s now k n)) t k =
      (if now + unat n * 10 ^ 9 \<le> t then None else Some v) \<and>
    (k' \<noteq> k \<longrightarrow> Store_get (snd (Store_expire s now k n)) t k' = Store_get s t k') \<and>
    (t < now + unat n * 10 ^ 9 \<longrightarrow>
      sint (Store_ttl (snd (Store_expire s now k n)) t k) = int ((now + unat n * 10 ^ 9 - t) div 10 ^ 9))"
proof -
  have e: "checked_add now (duration_from_secs n) = Some (now + unat n * 10 ^ 9)"
    using assms(3) by (simp add: checked_add_def duration_from_secs_def)
  show ?thesis
    using kv.lifetime [OF assms(1,2) e] by blast
qed

theorem store_expire_lifetime_witness:
  "Store_get (snd (Store_expire (snd (Store_set Store_new ''k'' ''v'')) 5 ''k'' 2)) 2000000004 ''k'' = Some ''v'' \<and>
   Store_get (snd (Store_expire (snd (Store_set Store_new ''k'' ''v'')) 5 ''k'' 2)) 2000000005 ''k'' = None"
proof -
  have ok: "store_ok (snd (Store_set Store_new ''k'' ''v''))" by (simp add: store_ok_set)
  have g: "Store_get (snd (Store_set Store_new ''k'' ''v'')) 5 ''k'' = Some ''v''"
    by (simp add: kv.get_put)
  have lim: "5 + unat (2 :: u64) * 10 ^ 9 < instant_limit" by (simp add: instant_limit_def)
  show ?thesis
    using store_expire_lifetime [OF ok g lim, of 2000000004 "''x''"]
      store_expire_lifetime [OF ok g lim, of 2000000005 "''x''"] by simp
qed

text \<open>
  C12. The result of \<open>ttl\<close>: -2 exactly for the keys \<open>get\<close> does not find, -1 exactly for the live
  keys without expiration, and otherwise never below zero.
\<close>

theorem store_ttl_results:
  assumes "store_ok s"
  shows "(sint (Store_ttl s now k) = -2 \<longleftrightarrow> Store_get s now k = None) \<and>
    (sint (Store_ttl s now k) = -1 \<longleftrightarrow> (\<exists>v. live s now k = Some (v, None))) \<and>
    (\<forall>v e. live s now k = Some (v, Some e) \<longrightarrow>
       0 \<le> sint (Store_ttl s now k) \<and> sint (Store_ttl s now k) = int ((e - now) div 10 ^ 9))"
  using kv.ttl_cases [OF assms, of now k] kv.ttl_value [OF assms, of now k] by auto

theorem store_ttl_results_witness:
  "store_ok Store_new \<and> sint (Store_ttl Store_new 3 ''k'') = -2"
proof -
  have "Store_get Store_new 3 ''k'' = None"
    by (simp add: Store_get_def Store_new_def from_parts_def)
  then show ?thesis
    using store_ttl_results [OF store_ok_new, of 3 "''k''"] by simp
qed

text \<open>
  C13. \<open>del\<close> reports a value exactly for a key \<open>get\<close> would find, and afterwards the key is missing
  at every time while all other keys are unchanged. The code reads the clock before it waits for the
  lock; an old reading removes the same key, and its answer differs from that of a reading made under
  the lock only if the key expired in between, when the old one still reports the value.
\<close>

theorem store_del_get:
  assumes "store_ok s" and "old \<le> now"
  shows "fst (Store_del s now k) = Store_get s now k \<and>
    Store_get (snd (Store_del s now k)) t k' = (if k' = k then None else Store_get s t k') \<and>
    snd (Store_del s old k) = snd (Store_del s now k) \<and>
    (fst (Store_del s old k) \<noteq> fst (Store_del s now k) \<longrightarrow>
      fst (Store_del s now k) = None \<and> (\<exists>v e. live s old k = Some (v, Some e) \<and> old < e \<and> e \<le> now))"
proof -
  have "fst (Store_del s now k) = None \<and> (\<exists>v e. live s old k = Some (v, Some e) \<and> old < e \<and> e \<le> now)"
    if "fst (Store_del s old k) \<noteq> fst (Store_del s now k)"
    using that assms(2)
    by (auto simp: del_live live_def is_expired_def split: option.splits if_splits)
  with kv.get_del [OF assms(1), of now k t k'] show ?thesis
    by (simp add: get_live del_live del_any_reading)
qed

theorem store_del_get_witness:
  "Store_get (snd (Store_del (snd (Store_set Store_new ''k'' ''v'')) 1 ''k'')) 2 ''k'' = None"
  using store_del_get [OF store_ok_set [OF store_ok_new], of 0 1 "''k''" "''v''" "''k''" 2 "''k''"] by simp

text \<open>
  C14. An \<open>EXPIRE\<close> whose deadline is not a representable instant (any number of seconds from
  $2^{63}$ on) panics on a live key, and the key is gone from the store afterwards.
\<close>

theorem expire_overflow_loses_key:
  assumes "store_ok s" and "Store_get s now k = Some v" and "2 ^ 63 \<le> unat n"
  shows "fst (Store_expire s now k n) = None \<and> Store_get (snd (Store_expire s now k n)) t k = None"
proof -
  obtain x where x: "live s now k = Some (v, x)"
    using assms(2) by (auto simp: get_live)
  have "2 ^ 63 * 10 ^ 9 \<le> unat n * 10 ^ 9"
    using assms(3) by (rule mult_le_mono1)
  then have "\<not> now + unat n * 10 ^ 9 < instant_limit"
    unfolding instant_limit_def by linarith
  then have "checked_add now (duration_from_secs n) = None"
    by (simp add: checked_add_def duration_from_secs_def)
  then show ?thesis
    using expire_overflow [OF assms(1) x] by (simp add: get_live)
qed

theorem expire_overflow_loses_key_witness:
  "fst (Store_expire (snd (Store_set Store_new ''k'' ''v'')) 5 ''k'' (2 ^ 63)) = None \<and>
   Store_get (snd (Store_expire (snd (Store_set Store_new ''k'' ''v'')) 5 ''k'' (2 ^ 63))) 5 ''k'' = None"
proof (rule expire_overflow_loses_key)
  show "store_ok (snd (Store_set Store_new ''k'' ''v''))" by (simp add: store_ok_set)
  show "Store_get (snd (Store_set Store_new ''k'' ''v'')) 5 ''k'' = Some ''v''"
    by (simp add: kv.get_put)
  show "2 ^ 63 \<le> unat (2 ^ 63 :: u64)" by simp
qed

text \<open>
  C15. The sweep: it keeps the invariant, changes no reading of any key at the time it ran or
  later, and leaves neither an expired value in the map nor a due entry in the heap.
\<close>

theorem sweep_correct:
  assumes "store_ok s"
  shows "store_ok (sweep_expired_once s now) \<and>
    (\<forall>t \<ge> now. live (sweep_expired_once s now) t = live s t) \<and>
    (\<forall>k v. hm_get k (hashmap (sweep_expired_once s now)) = Some v \<longrightarrow> \<not> is_expired v now) \<and>
    (\<forall>(t, k) \<in> set (expiration_heap (sweep_expired_once s now)). now < t)"
  using assms by (auto simp: store_ok_sweep live_sweep sweep_parts split: if_splits)

theorem sweep_correct_witness:
  "store_ok (sweep_expired_once (snd (Store_expire (snd (Store_set Store_new ''k'' ''v'')) 5 ''k'' 0)) 6)"
  using sweep_correct [OF store_ok_expire [OF store_ok_set [OF store_ok_new]]] by blast

text \<open>
  Within the first second after \<open>EXPIRE k n\<close>, as soon as the clock has advanced at all, \<open>TTL\<close>
  answers $n - 1$: the remaining time is rounded down.
\<close>

lemma ttl_rounds_down:
  assumes "store_ok s" and "Store_get s now k = Some v" and "0 < unat n"
    and "now + unat n * 10 ^ 9 < instant_limit" and "now < t" and "t \<le> now + 10 ^ 9"
    and "t < now + unat n * 10 ^ 9"
  shows "sint (Store_ttl (snd (Store_expire s now k n)) t k) = int (unat n) - 1"
proof -
  have e: "checked_add now (duration_from_secs n) = Some (now + unat n * 10 ^ 9)"
    using assms(4) by (simp add: checked_add_def duration_from_secs_def)
  obtain d where d: "t = now + d" "0 < d" "d \<le> 10 ^ 9"
    using assms(5,6) by (metis add_le_cancel_left less_imp_add_positive)
  obtain m where m: "unat n = Suc m" using assms(3) gr0_implies_Suc by blast
  have "now + unat n * 10 ^ 9 - t = (10 ^ 9 - d) + m * 10 ^ 9"
    using d m by simp
  moreover have "10 ^ 9 - d < (10 ^ 9 :: nat)" using d by simp
  ultimately have "(now + unat n * 10 ^ 9 - t) div 10 ^ 9 = m" by simp
  then show ?thesis
    using kv.lifetime(3) [OF assms(1,2) e assms(7)] m by simp
qed

end
