(* ===== verification/Sweeper.thy ===== *)
theory Sweeper
  imports Kv_Store
begin

text \<open>
  The store in time. The first part runs a history of timed operations with sweeps anywhere in
  between and compares it with an abstract map that never sweeps. The second part is the
  concurrent system of \<open>Store::sweep_loop\<close> and the clients: the background task stops between its
  two critical sections, peeks at the heap and waits on \<open>Notify\<close> or a timer, and client operations
  happen at any of these points.
\<close>

section \<open>Histories\<close>

datatype Op = OpSet Key bytes | OpGet Key | OpDel Key | OpExpire Key u64 | OpTtl Key

datatype Response = Done | Value "bytes option" | Number i64 | Panicked

definition run_op :: "Store \<Rightarrow> Instant \<Rightarrow> Op \<Rightarrow> Response \<times> Store" where
  "run_op s now op =
     (case op of
        OpSet k v \<Rightarrow> (Done, snd (Store_set s k v))
      | OpGet k \<Rightarrow> (Value (Store_get s now k), s)
      | OpDel k \<Rightarrow> (Value (fst (Store_del s now k)), snd (Store_del s now k))
      | OpExpire k n \<Rightarrow>
          (case fst (Store_expire s now k n) of None \<Rightarrow> Panicked | Some r \<Rightarrow> Number r,
           snd (Store_expire s now k n))
      | OpTtl k \<Rightarrow> (Number (Store_ttl s now k), s))"

datatype Event = Do Op | Sweep

definition store_event :: "Store \<Rightarrow> Instant \<Rightarrow> Event \<Rightarrow> Response list \<times> Store" where
  "store_event s now e =
     (case e of
        Do op \<Rightarrow> ([fst (run_op s now op)], snd (run_op s now op))
      | Sweep \<Rightarrow> ([], sweep_expired_once s now))"

definition run_history :: "Store \<Rightarrow> (Instant \<times> Event) list \<Rightarrow> Response list" where
  "run_history s es = fst (run_timed store_event s es)"

text \<open>The specification: a map of values with deadlines, read through the clock; sweeps do nothing.\<close>

definition visible :: "view \<Rightarrow> Instant \<Rightarrow> view" where
  "visible m now k =
     (case m k of
        None \<Rightarrow> None
      | Some (v, x) \<Rightarrow> if \<exists>e. x = Some e \<and> e \<le> now then None else Some (v, x))"

definition spec_op :: "view \<Rightarrow> Instant \<Rightarrow> Op \<Rightarrow> Response \<times> view" where
  "spec_op m now op =
     (case op of
        OpSet k v \<Rightarrow> (Done, m(k \<mapsto> (v, None)))
      | OpGet k \<Rightarrow> (Value (map_option fst (visible m now k)), m)
      | OpDel k \<Rightarrow> (Value (map_option fst (visible m now k)), m(k := None))
      | OpExpire k n \<Rightarrow>
          (case visible m now k of
             None \<Rightarrow> (Number 0, m)
           | Some (v, x) \<Rightarrow>
               (case checked_add now (duration_from_secs n) of
                  None \<Rightarrow> (Panicked, m(k := None))
                | Some e \<Rightarrow> (Number 1, m(k \<mapsto> (v, Some e)))))
      | OpTtl k \<Rightarrow>
          (Number (case visible m now k of None \<Rightarrow> -2 | Some (v, None) \<Rightarrow> -1
             | Some (v, Some e) \<Rightarrow> word_of_nat (as_secs (duration_since e now))), m))"

definition spec_event :: "view \<Rightarrow> Instant \<Rightarrow> Event \<Rightarrow> Response list \<times> view" where
  "spec_event m now e =
     (case e of
        Do op \<Rightarrow> ([fst (spec_op m now op)], snd (spec_op m now op))
      | Sweep \<Rightarrow> ([], m))"

definition spec_history :: "view \<Rightarrow> (Instant \<times> Event) list \<Rightarrow> Response list" where
  "spec_history m es = fst (run_timed spec_event m es)"

text \<open>The store at hand agrees with the abstract map from a given time on.\<close>

definition agrees :: "Store \<Rightarrow> view \<Rightarrow> Instant \<Rightarrow> bool" where
  "agrees s m now \<longleftrightarrow> store_ok s \<and> (\<forall>t \<ge> now. live s t = visible m t)"

lemma agrees_later: "agrees s m now \<Longrightarrow> now \<le> t \<Longrightarrow> agrees s m t"
  by (auto simp: agrees_def)

lemma visible_upd: "visible (m(k := x)) t = (visible m t)(k := visible (\<lambda>_. x) t k)"
  by (auto simp: visible_def fun_eq_iff)

lemma visible_const [simp]: "visible (\<lambda>_. None) t k = None"
  "visible (\<lambda>_. Some (v, None)) t k = Some (v, None)"
  "visible (\<lambda>_. Some (v, Some e)) t k = (if e \<le> t then None else Some (v, Some e))"
  by (auto simp: visible_def)

lemma expire_agrees:
  assumes "agrees s m now"
  shows "fst (run_op s now (OpExpire k n)) = fst (spec_op m now (OpExpire k n))"
    and "agrees (snd (run_op s now (OpExpire k n))) (snd (spec_op m now (OpExpire k n))) now"
proof -
  have ok: "store_ok s" and vis: "\<And>t. now \<le> t \<Longrightarrow> live s t = visible m t"
    using assms by (auto simp: agrees_def)
  have ok': "store_ok (snd (Store_expire s now k n))" using ok by (rule store_ok_expire)
  show "fst (run_op s now (OpExpire k n)) = fst (spec_op m now (OpExpire k n))"
    and "agrees (snd (run_op s now (OpExpire k n))) (snd (spec_op m now (OpExpire k n))) now"
  proof (atomize (full), cases "live s now k")
    case None
    then have "visible m now k = None" using vis by simp
    with None ok ok' show "fst (run_op s now (OpExpire k n)) = fst (spec_op m now (OpExpire k n)) \<and>
        agrees (snd (run_op s now (OpExpire k n))) (snd (spec_op m now (OpExpire k n))) now"
      by (simp add: run_op_def spec_op_def agrees_def expire_missing vis)
  next
    case (Some vx)
    obtain v x where vx: "vx = (v, x)" by fastforce
    with Some vis have m: "visible m now k = Some (v, x)" by simp
    note lv = Some [unfolded vx]
    show "fst (run_op s now (OpExpire k n)) = fst (spec_op m now (OpExpire k n)) \<and>
        agrees (snd (run_op s now (OpExpire k n))) (snd (spec_op m now (OpExpire k n))) now"
    proof (cases "checked_add now (duration_from_secs n)")
      case None
      with m ok' show ?thesis
        by (simp add: run_op_def spec_op_def agrees_def expire_overflow [OF ok lv] vis visible_upd)
    next
      case (Some e)
      with m ok' show ?thesis
        by (simp add: run_op_def spec_op_def agrees_def expire_live [OF ok lv Some] vis visible_upd)
    qed
  qed
qed

lemma run_op_agrees:
  assumes "agrees s m now"
  shows "fst (run_op s now op) = fst (spec_op m now op)"
    and "agrees (snd (run_op s now op)) (snd (spec_op m now op)) now"
proof -
  have ok: "store_ok s" and vis: "\<And>t. now \<le> t \<Longrightarrow> live s t = visible m t"
    using assms by (auto simp: agrees_def)
  show "fst (run_op s now op) = fst (spec_op m now op)"
    using assms by (cases op)
      (simp_all add: expire_agrees, simp_all add: run_op_def spec_op_def get_live del_live ttl_live vis)
  show "agrees (snd (run_op s now op)) (snd (spec_op m now op)) now"
    using assms by (cases op)
      (simp_all add: expire_agrees,
       simp_all add: run_op_def spec_op_def agrees_def store_ok_set store_ok_del live_set live_del
         visible_upd)
qed

lemma sweep_agrees: "agrees s m now \<Longrightarrow> agrees (sweep_expired_once s now) m now"
  by (simp add: agrees_def store_ok_sweep live_sweep)

interpretation hist: timed_refinement store_event spec_event agrees
proof
  fix s m now e assume a: "agrees s m now"
  show "fst (store_event s now e) = fst (spec_event m now e)"
    using run_op_agrees(1) [OF a] by (simp add: store_event_def spec_event_def split: Event.split)
  show "agrees (snd (store_event s now e)) (snd (spec_event m now e)) now"
    using run_op_agrees(2) [OF a] sweep_agrees [OF a] by (simp add: store_event_def spec_event_def split: Event.split)
qed (rule agrees_later)

lemma visible_visible: "t0 \<le> t \<Longrightarrow> visible (live s t0) t = live s t"
  by (auto simp: visible_def fun_eq_iff live_time [of t0 t] split: option.split)

text \<open>
  C17. Refinement: in every history of client operations with sweeps anywhere between them and a
  clock that does not run backwards, each operation answers exactly as the abstract map with
  deadlines does, in which there is no heap and nothing is ever swept.
\<close>

theorem history_refines_spec:
  assumes "store_ok s" and "sorted (t0 # map fst es)"
  shows "run_history s es = spec_history (live s t0) es"
  unfolding run_history_def spec_history_def
proof (rule hist.run_timed_answers)
  show "agrees s (live s t0) t0"
    using assms(1) by (simp add: agrees_def visible_visible)
qed (rule assms(2))

theorem history_refines_spec_witness:
  "run_history Store_new [(1, Do (OpSet ''k'' ''v'')), (2, Sweep), (3, Do (OpGet ''k''))] =
   spec_history (live Store_new 0) [(1, Do (OpSet ''k'' ''v'')), (2, Sweep), (3, Do (OpGet ''k''))]"
  by (rule history_refines_spec) simp_all

section \<open>The background task\<close>

text \<open>
  Where \<open>sweep_loop\<close> stands: about to pop due entries, between its two locks with a clock reading
  and the collected keys, about to peek at the next deadline, or waiting for a wake-up and, if
  there is a deadline, for the timer. \<open>wakeup\<close> in the store is the permit of the \<open>Notify\<close>.
\<close>

datatype Pc =
    Sweeping
  | Purging Instant "Key list"
  | Peeking
  | Waiting "Instant option"

record Sys =
  shared :: Store
  clock :: Instant
  pc :: Pc

definition sys_init :: "Sys \<Rightarrow> bool" where
  "sys_init s \<longleftrightarrow> store_ok (shared s) \<and> pc s = Sweeping"

inductive sweeper_step :: "Sys \<Rightarrow> Sys \<Rightarrow> bool" where
  sweep_pop: "pc s = Sweeping \<Longrightarrow>
    sweep_heap (clock s) (expiration_heap (shared s)) [] = (candidates, heap) \<Longrightarrow>
    sweeper_step s (s\<lparr>shared := (shared s)\<lparr>expiration_heap := heap\<rparr>, pc := Purging (clock s) candidates\<rparr>)"
| sweep_purge: "pc s = Purging now candidates \<Longrightarrow>
    sweeper_step s (s\<lparr>shared := (shared s)\<lparr>hashmap := sweep_map now candidates (hashmap (shared s))\<rparr>,
      pc := Peeking\<rparr>)"
| peek: "pc s = Peeking \<Longrightarrow>
    sweeper_step s (s\<lparr>pc := Waiting (map_option fst (heap_peek (expiration_heap (shared s))))\<rparr>)"
| wake_timer: "pc s = Waiting (Some wake_time) \<Longrightarrow> wake_time \<le> clock s \<Longrightarrow>
    sweeper_step s (s\<lparr>pc := Sweeping\<rparr>)"
| wake_notified: "pc s = Waiting d \<Longrightarrow> wakeup (shared s) \<Longrightarrow>
    sweeper_step s (s\<lparr>shared := (shared s)\<lparr>wakeup := False\<rparr>, pc := Sweeping\<rparr>)"

inductive sys_step :: "Sys \<Rightarrow> Sys \<Rightarrow> bool" where
  sweeper: "sweeper_step s t \<Longrightarrow> sys_step s t"
| client: "sys_step s (s\<lparr>shared := snd (run_op (shared s) (clock s) op)\<rparr>)"
| tick: "clock s \<le> now \<Longrightarrow> sys_step s (s\<lparr>clock := now\<rparr>)"

inductive_cases sys_stepE: "sys_step s t"

text \<open>An expiration that a sweep in progress has taken over from the heap.\<close>

definition in_flight :: "Sys \<Rightarrow> Instant \<Rightarrow> Key \<Rightarrow> bool" where
  "in_flight s t k \<longleftrightarrow> (case pc s of Purging now candidates \<Rightarrow> k \<in> set candidates \<and> t \<le> now | _ \<Rightarrow> False)"

definition covered :: "Sys \<Rightarrow> bool" where
  "covered s \<longleftrightarrow> (\<forall>k v t. hm_get k (hashmap (shared s)) = Some v \<longrightarrow> expiration_time v = Some t \<longrightarrow>
     t < instant_limit \<and> ((t, k) \<in> set (expiration_heap (shared s)) \<or> in_flight s t k))"

definition pc_ok :: "Sys \<Rightarrow> bool" where
  "pc_ok s \<longleftrightarrow> (case pc s of
      Purging now _ \<Rightarrow> now \<le> clock s
    | Waiting d \<Rightarrow> wakeup (shared s) \<or>
        (\<forall>(t, k) \<in> set (expiration_heap (shared s)). \<exists>w. d = Some w \<and> w \<le> t)
    | _ \<Rightarrow> True)"

definition sys_inv :: "Sys \<Rightarrow> bool" where
  "sys_inv s \<longleftrightarrow> hm_invar (hashmap (shared s)) \<and> sorted (expiration_heap (shared s)) \<and> covered s \<and> pc_ok s"

lemma run_op_shape:
  "run_op s now op = (r, s') \<Longrightarrow> hm_invar (hashmap s) \<Longrightarrow>
     hm_invar (hashmap s') \<and> (sorted (expiration_heap s) \<longrightarrow> sorted (expiration_heap s')) \<and>
     set (expiration_heap s) \<subseteq> set (expiration_heap s') \<and>
     (wakeup s \<longrightarrow> wakeup s') \<and> (expiration_heap s' = expiration_heap s \<or> wakeup s')"
  by (cases op)
    (auto simp: run_op_def Store_set_def Store_del_def Store_expire_def Let_def
      split: option.splits if_splits)

lemma run_op_entry:
  assumes "run_op s now op = (r, s')" "hm_invar (hashmap s)"
    and "hm_get k (hashmap s') = Some v" "expiration_time v = Some t"
  shows "hm_get k (hashmap s) = Some v \<or> ((t, k) \<in> set (expiration_heap s') \<and> t < instant_limit)"
  using assms
  by (cases op)
    (auto simp: run_op_def Store_set_def Store_del_def Store_expire_def Let_def checked_add_Some
      split: option.splits if_splits)

lemma client_inv:
  assumes "sys_inv s"
  shows "sys_inv (s\<lparr>shared := snd (run_op (shared s) (clock s) op)\<rparr>)"
proof -
  obtain r s' where op: "run_op (shared s) (clock s) op = (r, s')" by fastforce
  have hm: "hm_invar (hashmap (shared s))" using assms by (simp add: sys_inv_def)
  note shape = run_op_shape [OF op hm]
  have "covered (s\<lparr>shared := s'\<rparr>)"
    using assms shape run_op_entry [OF op hm]
    unfolding sys_inv_def covered_def in_flight_def by simp blast
  moreover have "pc_ok (s\<lparr>shared := s'\<rparr>)"
    using assms shape by (auto simp: sys_inv_def pc_ok_def split: Pc.splits)
  ultimately show ?thesis
    using assms shape by (simp add: op sys_inv_def)
qed

lemma sweeper_inv: "sweeper_step s t \<Longrightarrow> sys_inv s \<Longrightarrow> sys_inv t"
proof (induction rule: sweeper_step.induct)
  case (sweep_pop s candidates heap)
  have srt: "sorted (expiration_heap (shared s))"
    using sweep_pop.prems by (simp add: sys_inv_def)
  have "heap = filter (\<lambda>(t, k). clock s < t) (expiration_heap (shared s))"
    and "set candidates = {k. \<exists>t \<le> clock s. (t, k) \<in> set (expiration_heap (shared s))}"
    using sweep_heap_spec [OF srt, of "clock s" "[]"] sweep_pop.hyps(2) by simp_all
  then show ?case
    using sweep_pop by (fastforce simp: sys_inv_def covered_def in_flight_def pc_ok_def
        intro: sorted_wrt_filter)
next
  case (sweep_purge s now candidates)
  then show ?case
    by (fastforce simp: sys_inv_def covered_def in_flight_def pc_ok_def sweep_map_get is_expired_def
        split: if_splits)
next
  case (peek s)
  then have srt: "sorted (expiration_heap (shared s))" by (simp add: sys_inv_def)
  have "\<exists>w. map_option fst (heap_peek (expiration_heap (shared s))) = Some w \<and> w \<le> t"
    if "(t, k) \<in> set (expiration_heap (shared s))" for t k
    using that srt sorted_pair_fst
    by (cases "expiration_heap (shared s)") (auto simp: heap_peek_def)
  with peek show ?case
    by (auto simp: sys_inv_def covered_def in_flight_def pc_ok_def)
qed (auto simp: sys_inv_def covered_def in_flight_def pc_ok_def)

lemma tick_inv: "sys_inv s \<Longrightarrow> clock s \<le> now \<Longrightarrow> sys_inv (s\<lparr>clock := now\<rparr>)"
  by (auto simp: sys_inv_def covered_def in_flight_def pc_ok_def split: Pc.splits)

interpretation sw: inductive_invariant sys_init sys_step sys_inv
proof
  fix s assume "sys_init s"
  then show "sys_inv s"
    by (auto simp: sys_init_def sys_inv_def covered_def pc_ok_def store_ok_def)
next
  fix s t assume "sys_inv s" "sys_step s t"
  then show "sys_inv t"
    by (auto elim!: sys_stepE intro: sweeper_inv client_inv tick_inv)
qed

lemma sys_inv_store_ok: "sys_inv s \<Longrightarrow> (\<And>now c. pc s \<noteq> Purging now c) \<Longrightarrow> store_ok (shared s)"
  by (cases "pc s") (auto simp: sys_inv_def covered_def in_flight_def store_ok_def)

text \<open>No step of the background task changes what any client can read from now on.\<close>

lemma sweeper_transparent:
  "sweeper_step s u \<Longrightarrow> sys_inv s \<Longrightarrow> clock s \<le> t \<Longrightarrow> live (shared u) t = live (shared s) t"
proof (induction rule: sweeper_step.induct)
  case (sweep_purge s now candidates)
  then have "hm_invar (hashmap (shared s))" "now \<le> t"
    by (auto simp: sys_inv_def pc_ok_def)
  then show ?case
    by (auto simp: live_def sweep_map_get fun_eq_iff split: option.split intro: is_expired_mono)
qed (auto simp: live_def fun_eq_iff)

lemma sweeper_clock: "sweeper_step s u \<Longrightarrow> clock u = clock s"
  by (induction rule: sweeper_step.induct) auto

text \<open>From the top of its loop the task reaches a store without expired values in two steps.\<close>

definition swept :: "Sys \<Rightarrow> bool" where
  "swept s \<longleftrightarrow> (\<forall>k v. hm_get k (hashmap (shared s)) = Some v \<longrightarrow> \<not> is_expired v (clock s))"

lemma sweeping_cleans:
  assumes "sys_inv s" "pc s = Sweeping"
  shows "\<exists>u. sweeper_step\<^sup>*\<^sup>* s u \<and> swept u"
proof -
  obtain c h where ch: "sweep_heap (clock s) (expiration_heap (shared s)) [] = (c, h)" by fastforce
  let ?u = "s\<lparr>shared := (shared s)\<lparr>expiration_heap := h\<rparr>, pc := Purging (clock s) c\<rparr>"
  let ?w = "?u\<lparr>shared := (shared ?u)\<lparr>hashmap := sweep_map (clock s) c (hashmap (shared ?u))\<rparr>, pc := Peeking\<rparr>"
  have 1: "sweeper_step s ?u" using sweep_pop [OF assms(2) ch] by simp
  have 2: "sweeper_step ?u ?w" by (rule sweep_purge) simp
  have "swept ?w"
  proof -
    have "store_ok (shared s)" using assms by (intro sys_inv_store_ok) simp_all
    then show ?thesis
      using sweep_parts(2) [of "shared s" _ "clock s"] ch
      by (auto simp: swept_def sweep_expired_once_def split: if_splits)
  qed
  then show ?thesis
    using converse_rtranclp_into_rtranclp [where r = sweeper_step, OF 1 r_into_rtranclp [where r = sweeper_step, OF 2]]
    by blast
qed

lemma waiting_enabled:
  assumes "sys_inv s" "pc s = Waiting d" "\<not> swept s"
  shows "\<exists>u. sweeper_step s u \<and> pc u = Sweeping"
proof (cases "wakeup (shared s)")
  case True
  then show ?thesis using wake_notified [OF assms(2)] by fastforce
next
  case False
  obtain k v t where t: "hm_get k (hashmap (shared s)) = Some v" "expiration_time v = Some t" "t \<le> clock s"
    using assms(3) by (auto simp: swept_def is_expired_def split: option.splits)
  then have "(t, k) \<in> set (expiration_heap (shared s))"
    using assms(1,2) unfolding sys_inv_def covered_def in_flight_def by fastforce
  then obtain w where "d = Some w" "w \<le> t"
    using assms(1,2) False by (auto simp: sys_inv_def pc_ok_def)
  then show ?thesis using wake_timer [of s w] assms(2) t(3) by fastforce
qed

lemma sweeper_enabled:
  assumes "sys_inv s" "\<not> swept s"
  shows "\<exists>u. sweeper_step s u"
proof (cases "pc s")
  case Sweeping
  then show ?thesis using sweep_pop [of s] by (metis prod.exhaust)
next
  case (Waiting d)
  then show ?thesis using waiting_enabled [OF assms(1) _ assms(2)] by blast
qed (use sweep_purge peek in blast)+

lemma task_cleans:
  assumes "sys_inv s"
  shows "\<exists>u. sweeper_step\<^sup>*\<^sup>* s u \<and> swept u"
proof -
  have first: "\<exists>u. sweeper_step\<^sup>*\<^sup>* s u \<and> swept u"
    if "sweeper_step s w" "\<exists>u. sweeper_step\<^sup>*\<^sup>* w u \<and> swept u" for s w
    using that by (meson converse_rtranclp_into_rtranclp)
  have waiting: "\<exists>u. sweeper_step\<^sup>*\<^sup>* s u \<and> swept u"
    if inv: "sys_inv s" and pc: "pc s = Waiting d" for s d
  proof (cases "swept s")
    case False
    from waiting_enabled [OF inv pc this] obtain w where w: "sweeper_step s w" "pc w = Sweeping" by blast
    from first [OF w(1) sweeping_cleans [OF sweeper_inv [OF w(1) inv] w(2)]] show ?thesis .
  qed blast
  have peeking: "\<exists>u. sweeper_step\<^sup>*\<^sup>* s u \<and> swept u" if inv: "sys_inv s" and pc: "pc s = Peeking" for s
    by (rule first [OF peek [OF pc] waiting [OF sweeper_inv [OF peek [OF pc] inv]]]) simp
  show ?thesis
  proof (cases "pc s")
    case (Purging now c)
    let ?u = "s\<lparr>shared := (shared s)\<lparr>hashmap := sweep_map now c (hashmap (shared s))\<rparr>, pc := Peeking\<rparr>"
    have u: "sweeper_step s ?u" using Purging by (rule sweep_purge)
    show ?thesis by (rule first [OF u peeking [OF sweeper_inv [OF u assms]]]) simp
  qed (use assms sweeping_cleans waiting peeking in blast)+
qed

lemma sweeper_steps_transparent:
  "sweeper_step\<^sup>*\<^sup>* s u \<Longrightarrow> sys_inv s \<Longrightarrow>
     sys_inv u \<and> clock u = clock s \<and> (\<forall>t \<ge> clock s. live (shared u) t = live (shared s) t)"
proof (induction rule: rtranclp_induct)
  case (step u w)
  then show ?case
    using sweeper_inv [OF step.hyps(2)] sweeper_clock [OF step.hyps(2)]
      sweeper_transparent [OF step.hyps(2)] by auto
qed simp

section \<open>Correctness of the concurrent store\<close>

text \<open>
  C18. No lost wake-up: in every reachable state of clients, clock and background task, in which
  the map holds a value that is expired, the background task has a step it can take; it is never
  asleep beyond the deadline of a key, whatever operations happened between its critical sections.
\<close>

theorem no_lost_wakeup:
  assumes "reach sys_init sys_step s" and "hm_get k (hashmap (shared s)) = Some v"
    and "is_expired v (clock s)"
  shows "\<exists>u. sweeper_step s u"
  using sweeper_enabled [OF sw.inv_reach [OF assms(1)]] assms(2,3) by (auto simp: swept_def)

lemma sweeping_init:
  "store_ok st \<Longrightarrow> reach sys_init sys_step \<lparr>shared = st, clock = now, pc = Sweeping\<rparr>"
  by (rule reach_init) (simp add: sys_init_def)

theorem no_lost_wakeup_witness:
  "\<exists>u. sweeper_step \<lparr>shared = snd (Store_expire (snd (Store_set Store_new ''k'' ''v'')) 5 ''k'' 0),
     clock = 5, pc = Sweeping\<rparr> u"
  by (rule no_lost_wakeup [OF sweeping_init, where k = "''k''" and v = "\<lparr>stored_value = ''v'', expiration_time = Some 5\<rparr>"])
    (simp_all add: store_ok_expire store_ok_set, simp_all add: Store_expire_def Store_set_def Store_new_def
      from_parts_def is_expired_def time_eval)

text \<open>
  C19. Cleanup: from every reachable state the background task, by its own steps and without the
  clock moving, reaches a state in which no expired value is left in the map, and no reading of any
  key at that time or later is changed by these steps.
\<close>

theorem sweeper_cleans_up:
  assumes "reach sys_init sys_step s"
  shows "\<exists>u. sweeper_step\<^sup>*\<^sup>* s u \<and> clock u = clock s \<and>
    (\<forall>k v. hm_get k (hashmap (shared u)) = Some v \<longrightarrow> \<not> is_expired v (clock s)) \<and>
    (\<forall>t \<ge> clock s. live (shared u) t = live (shared s) t)"
proof -
  have inv: "sys_inv s" using assms by (rule sw.inv_reach)
  obtain u where u: "sweeper_step\<^sup>*\<^sup>* s u" "swept u" using task_cleans [OF inv] by blast
  with sweeper_steps_transparent [OF u(1) inv] show ?thesis by (auto simp: swept_def)
qed

theorem sweeper_cleans_up_witness:
  "\<exists>u. sweeper_step\<^sup>*\<^sup>* \<lparr>shared = Store_new, clock = 3, pc = Sweeping\<rparr> u \<and> clock u = 3"
  using sweeper_cleans_up [OF sweeping_init [OF store_ok_new, of 3]] by auto

text \<open>
  C20. No expiration is forgotten: in every reachable state each key with a deadline has its entry
  in the heap, or its key is among those the sweep in progress has collected and is about to
  remove.
\<close>

theorem expirations_tracked:
  assumes "reach sys_init sys_step s" and "hm_get k (hashmap (shared s)) = Some v"
    and "expiration_time v = Some t"
  shows "(t, k) \<in> set (expiration_heap (shared s)) \<or>
    (\<exists>now candidates. pc s = Purging now candidates \<and> k \<in> set candidates \<and> t \<le> now \<and> now \<le> clock s)"
  using sw.inv_reach [OF assms(1)] assms(2,3)
  by (fastforce simp: sys_inv_def covered_def in_flight_def pc_ok_def split: Pc.splits)

theorem expirations_tracked_witness:
  "(5, ''k'') \<in> set (expiration_heap (snd (Store_expire (snd (Store_set Store_new ''k'' ''v'')) 5 ''k'' 0)))"
proof -
  let ?s = "\<lparr>shared = snd (Store_expire (snd (Store_set Store_new ''k'' ''v'')) 5 ''k'' 0),
     clock = 5, pc = Sweeping\<rparr>"
  have "(5, ''k'') \<in> set (expiration_heap (shared ?s)) \<or>
      (\<exists>now candidates. pc ?s = Purging now candidates \<and> ''k'' \<in> set candidates \<and> 5 \<le> now \<and> now \<le> clock ?s)"
    by (rule expirations_tracked [OF sweeping_init, where v = "\<lparr>stored_value = ''v'', expiration_time = Some 5\<rparr>"])
      (simp_all add: store_ok_expire store_ok_set, simp_all add: Store_expire_def Store_set_def Store_new_def
        from_parts_def is_expired_def time_eval)
  then show ?thesis by simp
qed

end
