(* ===== verification/Connections.thy ===== *)
theory Connections
  imports Commands Sweeper
begin

text \<open>
  The connection handler (\<open>src/src/connection.rs\<close>): authentication and authorisation, the
  execution of a command on the shared store, the reply, and the loop that reads, parses,
  executes and answers. The reader is a list of inputs, the writer the bytes written so far. The
  store is shared: what other connections and the sweeper do to it before the $n$-th frame, the
  clock reading made for that frame and the result of writing its reply come from an environment,
  so every theorem holds for all interleavings. The password container (crate \<open>secrecy\<close>) and the
  comparison of passwords (crate \<open>constant_time_eq\<close>) are parameters.
\<close>

section \<open>Connections\<close>

record 'sec Connection =
  auth_password :: "'sec option"
  authenticated :: bool
  written :: bytes

text \<open>The debug output shows the peer address (given as text) and nothing else of a connection.\<close>

definition Connection_fmt :: "string \<Rightarrow> 'sec Connection \<Rightarrow> string" where
  "Connection_fmt addr c = ''connection { addr: '' @ addr @ '' }''"

datatype ProcessOutcome = Quit | Noop | Respond Frame

definition Connection_new :: "'sec option \<Rightarrow> 'sec Connection" where
  "Connection_new password = \<lparr>auth_password = password, authenticated = False, written = []\<rparr>"

definition is_authorized :: "'sec Connection \<Rightarrow> bool" where
  "is_authorized c \<longleftrightarrow> auth_password c = None \<or> authenticated c"

definition authenticate_connection ::
  "(bytes \<Rightarrow> bytes \<Rightarrow> bool) \<Rightarrow> ('sec \<Rightarrow> bytes) \<Rightarrow> 'sec Connection \<Rightarrow> bytes \<Rightarrow> ProcessOutcome \<times> 'sec Connection"
where
  "authenticate_connection ct_eq expose c password =
     (case auth_password c of
        None \<Rightarrow> (Respond (SimpleError ''AUTH called without any password configured''), c)
      | Some secret \<Rightarrow>
          if ct_eq (expose secret) password
          then (Respond (SimpleString ''OK''), c\<lparr>authenticated := True\<rparr>)
          else (Respond (SimpleError ''AUTH invalid password''), c))"

definition can_execute :: "'sec Connection \<Rightarrow> Command \<Rightarrow> bool" where
  "can_execute c cmd \<longleftrightarrow>
     (case cmd of AUTH _ \<Rightarrow> True | PING \<Rightarrow> True | QUIT \<Rightarrow> True | NOOP \<Rightarrow> True | _ \<Rightarrow> False) \<or> is_authorized c"

text \<open>The outcome \<open>None\<close> is a panic inside the store.\<close>

definition process_command ::
  "(bytes \<Rightarrow> bytes \<Rightarrow> bool) \<Rightarrow> ('sec \<Rightarrow> bytes) \<Rightarrow> 'sec Connection \<Rightarrow> Store \<Rightarrow> Instant \<Rightarrow> Command \<Rightarrow>
   ProcessOutcome option \<times> 'sec Connection \<times> Store"
where
  "process_command ct_eq expose c s now cmd =
     (if \<not> can_execute c cmd
      then (Some (Respond (SimpleError ''NOAUTH Authentication required'')), c, s)
      else case cmd of
        NOOP \<Rightarrow> (Some Noop, c, s)
      | QUIT \<Rightarrow> (Some Quit, c, s)
      | PING \<Rightarrow> (Some (Respond (SimpleString ''PONG'')), c, s)
      | SET k v \<Rightarrow> (Some (Respond (SimpleString ''OK'')), c, snd (Store_set s k v))
      | GET k \<Rightarrow> (Some (Respond (Bulk (Store_get s now k))), c, s)
      | DEL k \<Rightarrow>
          (Some (Respond (Integer (case fst (Store_del s now k) of Some _ \<Rightarrow> 1 | None \<Rightarrow> 0))), c,
           snd (Store_del s now k))
      | EXPIRE k n \<Rightarrow>
          (map_option (\<lambda>r. Respond (Integer r)) (fst (Store_expire s now k n)), c,
           snd (Store_expire s now k n))
      | TTL k \<Rightarrow> (Some (Respond (Integer (Store_ttl s now k))), c, s)
      | AUTH k \<Rightarrow>
          (Some (fst (authenticate_connection ct_eq expose c k)),
           snd (authenticate_connection ct_eq expose c k), s))"

definition send_response :: "io_error option \<Rightarrow> 'sec Connection \<Rightarrow> Frame \<Rightarrow> (Error + unit) \<times> 'sec Connection" where
  "send_response io c response =
     (case io of
        Some e \<Rightarrow> (Inl (Error_from_io e), c)
      | None \<Rightarrow> (Inr (), c\<lparr>written := written c @ to_bytes response\<rparr>))"

section \<open>The run loop\<close>

record Env =
  env_clock :: "nat \<Rightarrow> Instant"
  env_others :: "nat \<Rightarrow> Store \<Rightarrow> Store"
  env_write :: "nat \<Rightarrow> io_error option"

record 'sec Session =
  conn :: "'sec Connection"
  store :: Store
  parser :: Parser
  count :: nat

datatype Exit = ReturnOk | ReturnErr Error | TaskPanic

datatype Input = Read bytes | ReadError io_error | Shutdown

definition outcome_of ::
  "(bytes \<Rightarrow> bytes \<Rightarrow> bool) \<Rightarrow> ('sec \<Rightarrow> bytes) \<Rightarrow> 'sec Connection \<Rightarrow> Store \<Rightarrow> Instant \<Rightarrow> Frame \<Rightarrow>
   (Exit + ProcessOutcome) \<times> 'sec Connection \<times> Store"
where
  "outcome_of ct_eq expose c s now f =
     (case Command_try_from f of
        Inr cmd \<Rightarrow>
          (case process_command ct_eq expose c s now cmd of
             (None, c', s') \<Rightarrow> (Inl TaskPanic, c', s')
           | (Some out, c', s') \<Rightarrow> (Inr out, c', s'))
      | Inl UnknownCommand \<Rightarrow> (Inr (Respond (SimpleError ''Unknown Command'')), c, s)
      | Inl (WrongArity _ _ _) \<Rightarrow> (Inr (Respond (SimpleError ''Wrong number of arguments'')), c, s)
      | Inl WrongArgumentType \<Rightarrow> (Inr (Respond (SimpleError ''Wrong Argument Type'')), c, s)
      | Inl (Io e) \<Rightarrow> (Inl ReturnOk, c, s)
      | Inl InvalidCommandFrame \<Rightarrow> (Inl ReturnOk, c, s))"

definition answer :: "io_error option \<Rightarrow> 'sec Session \<Rightarrow> Exit + ProcessOutcome \<Rightarrow> 'sec Session \<times> Exit option" where
  "answer io x out =
     (case out of
        Inl e \<Rightarrow> (x, Some e)
      | Inr Noop \<Rightarrow> (x, None)
      | Inr Quit \<Rightarrow> (x, Some ReturnOk)
      | Inr (Respond r) \<Rightarrow>
          (case send_response io (conn x) r of
             (Inl e, c) \<Rightarrow> (x\<lparr>conn := c\<rparr>, Some (ReturnErr e))
           | (Inr (), c) \<Rightarrow> (x\<lparr>conn := c\<rparr>, None)))"

definition handle_frame ::
  "(bytes \<Rightarrow> bytes \<Rightarrow> bool) \<Rightarrow> ('sec \<Rightarrow> bytes) \<Rightarrow> Env \<Rightarrow> 'sec Session \<Rightarrow> Frame \<Rightarrow> 'sec Session \<times> Exit option"
where
  "handle_frame ct_eq expose env x f =
     (let n = count x in
      case outcome_of ct_eq expose (conn x) (env_others env n (store x)) (env_clock env n) f of
        (out, c, s) \<Rightarrow> answer (env_write env n) (x\<lparr>conn := c, store := s, count := Suc n\<rparr>) out)"

fun run_frames ::
  "(bytes \<Rightarrow> bytes \<Rightarrow> bool) \<Rightarrow> ('sec \<Rightarrow> bytes) \<Rightarrow> Env \<Rightarrow> 'sec Session \<Rightarrow> Frame list \<Rightarrow> 'sec Session \<times> Exit option"
where
  "run_frames ct_eq expose env x [] = (x, None)"
| "run_frames ct_eq expose env x (f # fs) =
     (case handle_frame ct_eq expose env x f of
        (y, Some e) \<Rightarrow> (y, Some e)
      | (y, None) \<Rightarrow> run_frames ct_eq expose env y fs)"

text \<open>
  The result \<open>None\<close> of \<open>run\<close> means that the inputs so far are used up and the loop waits for
  more.
\<close>

fun run ::
  "(u8 \<Rightarrow> bytes \<Rightarrow> nat option) \<Rightarrow> (bytes \<Rightarrow> bytes \<Rightarrow> bool) \<Rightarrow> ('sec \<Rightarrow> bytes) \<Rightarrow> Env \<Rightarrow> 'sec Session \<Rightarrow>
   Input list \<Rightarrow> 'sec Session \<times> Exit option"
where
  "run mc ct_eq expose env x [] = (x, None)"
| "run mc ct_eq expose env x (Shutdown # is) = (x, Some ReturnOk)"
| "run mc ct_eq expose env x (ReadError e # is) = (x, Some (ReturnErr (Error_from_io e)))"
| "run mc ct_eq expose env x (Read bs # is) =
     (if bs = [] then (x, Some ReturnOk) else
      case parse_frames mc (parser x) bs of
        None \<Rightarrow> (x, Some TaskPanic)
      | Some (p, frames, halting_error) \<Rightarrow>
          (case run_frames ct_eq expose env (x\<lparr>parser := p\<rparr>) frames of
             (y, Some e) \<Rightarrow> (y, Some e)
           | (y, None) \<Rightarrow>
               if halting_error \<noteq> None then (y, Some ReturnOk)
               else run mc ct_eq expose env y is))"

definition session_start :: "'sec option \<Rightarrow> Store \<Rightarrow> 'sec Session" where
  "session_start password s = \<lparr>conn = Connection_new password, store = s, parser = Parser_new, count = 0\<rparr>"

section \<open>Basic facts\<close>

lemma run_frames_append:
  "run_frames ct ex env x (fs @ gs) =
     (case run_frames ct ex env x fs of (y, Some e) \<Rightarrow> (y, Some e) | (y, None) \<Rightarrow> run_frames ct ex env y gs)"
proof (induction fs arbitrary: x)
  case (Cons f fs)
  obtain y e where "handle_frame ct ex env x f = (y, e)" by fastforce
  with Cons show ?case by (cases e) simp_all
qed simp

lemma answer_simps [simp]:
  "answer io x (Inl e) = (x, Some e)"
  "answer io x (Inr Noop) = (x, None)"
  "answer io x (Inr Quit) = (x, Some ReturnOk)"
  "answer None x (Inr (Respond r)) = (x\<lparr>conn := (conn x)\<lparr>written := written (conn x) @ to_bytes r\<rparr>\<rparr>, None)"
  "answer (Some err) x (Inr (Respond r)) = (x, Some (ReturnErr (Io err)))"
  by (simp_all add: answer_def send_response_def Error_from_io_def split: unit.split)

lemma answer_exhaust:
  fixes out :: "Exit + ProcessOutcome" and io :: "io_error option"
  obtains e where "out = Inl e" | "out = Inr Noop" | "out = Inr Quit"
  | r where "out = Inr (Respond r)" "io = None" | r err where "out = Inr (Respond r)" "io = Some err"
  by (metis ProcessOutcome.exhaust option.exhaust sum.exhaust)

lemma answer_set_parser: "answer io (x\<lparr>parser := p\<rparr>) out = map_prod (\<lambda>y. y\<lparr>parser := p\<rparr>) id (answer io x out)"
  by (cases rule: answer_exhaust [of out _ io]) simp_all

lemma answer_store:
  "store (fst (answer io x out)) = store x" "count (fst (answer io x out)) = count x"
  "parser (fst (answer io x out)) = parser x"
  "auth_password (conn (fst (answer io x out))) = auth_password (conn x)"
  "authenticated (conn (fst (answer io x out))) = authenticated (conn x)"
  by (cases rule: answer_exhaust [of out _ io]; simp)+

lemma answer_keeps:
  "answer io x out = (y, e) \<Longrightarrow> store y = store x \<and> count y = count x \<and> parser y = parser x \<and>
     auth_password (conn y) = auth_password (conn x) \<and> authenticated (conn y) = authenticated (conn x)"
  using answer_store [of io x out] by simp

lemma handle_frame_set_parser:
  "handle_frame ct ex env (x\<lparr>parser := p\<rparr>) f = map_prod (\<lambda>y. y\<lparr>parser := p\<rparr>) id (handle_frame ct ex env x f)"
proof -
  obtain out c s where o: "outcome_of ct ex (conn x) (env_others env (count x) (store x))
      (env_clock env (count x)) f = (out, c, s)" by (metis prod_cases3)
  from answer_set_parser [where x = "x\<lparr>conn := c, store := s, count := Suc (count x)\<rparr>" and p = p and out = out] o
  show ?thesis by (cases x) (simp add: handle_frame_def Let_def)
qed

lemma run_frames_set_parser:
  "run_frames ct ex env (x\<lparr>parser := p\<rparr>) fs = map_prod (\<lambda>y. y\<lparr>parser := p\<rparr>) id (run_frames ct ex env x fs)"
proof (induction fs arbitrary: x)
  case (Cons f fs)
  obtain y e where "handle_frame ct ex env x f = (y, e)" by fastforce
  with Cons show ?case by (cases e) (simp_all add: handle_frame_set_parser)
qed simp

section \<open>Reading in pieces\<close>

lemma run_reads:
  assumes "memchr_law mc" and "settled (parser x)" and "[] \<notin> set cs"
    and "parse_frames mc (parser x) (concat cs) = Some (q, fs, halt)"
    and "run_frames ct ex env x fs = (y, exit)"
  shows "\<exists>p. run mc ct ex env x (map Read cs) =
    (y\<lparr>parser := p\<rparr>, if exit = None \<and> halt \<noteq> None then Some ReturnOk else exit)"
  using assms(2-)
proof (induction cs arbitrary: x y fs)
  case Nil
  then have "fs = [] \<and> halt = None"
    using stream.consume_Nil memchr_law_unique [OF assms(1)] by simp
  with Nil show ?case by (intro exI [of _ "parser x"]) auto
next
  case (Cons c cs)
  have mc: "mc = index_of" using assms(1) by (rule memchr_law_unique)
  consider "parse_frames mc (parser x) c = None"
    | p o1 e where "parse_frames mc (parser x) c = Some (p, o1, Some e)"
    | p o1 where "parse_frames mc (parser x) c = Some (p, o1, None)"
    by (metis not_Some_eq prod_cases3)
  then show ?case
  proof cases
    case 1
    then show ?thesis using Cons.prems(3) stream.consume_panic mc by simp
  next
    case (2 p o1 e)
    then have "fs = o1 \<and> halt = Some e"
      using Cons.prems(3) stream.consume_halt [of "parser x" c p o1 e "concat cs"] mc by auto
    with 2 Cons.prems show ?thesis by (auto simp: run_frames_set_parser split: option.split)
  next
    case (3 p o1)
    then obtain o2 where fs: "fs = o1 @ o2" and rest: "parse_frames mc p (concat cs) = Some (q, o2, halt)"
      using Cons.prems(3) stream.consume_more [of "parser x" c p o1 "concat cs"] mc by auto
    have "settled p" using 3 stream.consume_settled mc by blast
    obtain z stop where z: "run_frames ct ex env x o1 = (z, stop)" by fastforce
    show ?thesis
    proof (cases stop)
      case None
      then have "run_frames ct ex env (z\<lparr>parser := p\<rparr>) o2 = (y\<lparr>parser := p\<rparr>, exit)"
        using Cons.prems(4) z fs by (simp add: run_frames_append run_frames_set_parser)
      with Cons.IH [of "z\<lparr>parser := p\<rparr>" o2 "y\<lparr>parser := p\<rparr>"] \<open>settled p\<close> rest Cons.prems(2) 3 z None
      show ?thesis by (auto simp: run_frames_set_parser)
    next
      case (Some e)
      with 3 z fs Cons.prems show ?thesis
        by (auto simp: run_frames_append run_frames_set_parser)
    qed
  qed
qed

section \<open>Isolation of unauthenticated connections\<close>

lemma outcome_of_unauthenticated:
  assumes "auth_password c = Some sec" "\<not> authenticated c"
    and "\<forall>pw. Command_try_from f = Inr (AUTH pw) \<longrightarrow> \<not> ct (ex sec) pw"
  shows "\<exists>out. \<forall>s now. outcome_of ct ex c s now f = (out, c, s)"
proof (cases "Command_try_from f")
  case (Inl e)
  then show ?thesis by (cases e) (simp_all add: outcome_of_def)
next
  case (Inr cmd)
  with assms show ?thesis
    by (cases cmd) (simp_all add: outcome_of_def process_command_def can_execute_def is_authorized_def
        authenticate_connection_def)
qed

lemma outcome_of_authenticates:
  assumes "auth_password c = Some sec" "\<forall>a b. ct a b \<longleftrightarrow> a = b"
    and "outcome_of ct ex c s now f = (out, c', s')"
  shows "auth_password c' = Some sec \<and> written c' = written c \<and>
    (authenticated c' \<longleftrightarrow> authenticated c \<or> Command_try_from f = Inr (AUTH (ex sec)))"
proof (cases "Command_try_from f")
  case (Inl e)
  with assms show ?thesis by (cases e) (simp_all add: outcome_of_def)
next
  case (Inr cmd)
  with assms show ?thesis
    by (cases cmd) (auto simp: outcome_of_def process_command_def can_execute_def is_authorized_def
        authenticate_connection_def split: if_splits option.splits)
qed

lemma outcome_of_written: "outcome_of ct ex c s now f = (out, c', s') \<Longrightarrow> written c' = written c"
  by (auto simp: outcome_of_def process_command_def authenticate_connection_def
      split: sum.splits Error.splits if_splits Command.splits option.splits)

lemma handle_frame_unauthenticated:
  assumes "auth_password (conn x) = Some sec" "\<not> authenticated (conn x)"
    and "\<forall>pw. Command_try_from f = Inr (AUTH pw) \<longrightarrow> \<not> ct (ex sec) pw"
    and "handle_frame ct ex env x f = (y, e)"
  shows "auth_password (conn y) = Some sec \<and> \<not> authenticated (conn y) \<and> count y = Suc (count x)"
    and "env_write env' = env_write env \<Longrightarrow> handle_frame ct ex env' (x\<lparr>store := s\<rparr>) f =
      (y\<lparr>store := env_others env' (count x) s\<rparr>, e)"
proof -
  obtain out where out: "\<And>s now. outcome_of ct ex (conn x) s now f = (out, conn x, s)"
    using outcome_of_unauthenticated [where ct = ct and ex = ex, OF assms(1-3)] by blast
  show "auth_password (conn y) = Some sec \<and> \<not> authenticated (conn y) \<and> count y = Suc (count x)"
    using assms(1,2,4) by (auto simp: handle_frame_def Let_def out dest: answer_keeps)
  show "env_write env' = env_write env \<Longrightarrow> handle_frame ct ex env' (x\<lparr>store := s\<rparr>) f =
      (y\<lparr>store := env_others env' (count x) s\<rparr>, e)"
    using assms(4)
    by (cases rule: answer_exhaust [of out _ "env_write env (count x)"])
      (auto simp: handle_frame_def Let_def out)
qed

lemma handle_frame_authenticates:
  assumes "auth_password (conn x) = Some sec" "\<forall>a b. ct a b \<longleftrightarrow> a = b"
    and "handle_frame ct ex env x f = (y, e)"
  shows "auth_password (conn y) = Some sec \<and> count y = Suc (count x) \<and>
    (authenticated (conn y) \<longleftrightarrow> authenticated (conn x) \<or> Command_try_from f = Inr (AUTH (ex sec)))"
proof -
  obtain out c s where o: "outcome_of ct ex (conn x) (env_others env (count x) (store x))
      (env_clock env (count x)) f = (out, c, s)" by (metis prod_cases3)
  from outcome_of_authenticates [OF assms(1,2) o] assms(3)
    answer_store [of "env_write env (count x)" "x\<lparr>conn := c, store := s, count := Suc (count x)\<rparr>" out]
  show ?thesis by (simp add: handle_frame_def Let_def o)
qed

lemma run_frames_count:
  assumes "run_frames ct ex env x fs = (y, e)"
  shows "count x \<le> count y"
  using assms
proof (induction fs arbitrary: x)
  case (Cons f fs)
  obtain z g where z: "handle_frame ct ex env x f = (z, g)" by fastforce
  then have "count z = Suc (count x)"
    by (auto simp: handle_frame_def Let_def split: prod.splits dest: answer_keeps)
  with Cons z show ?case by (cases g) fastforce+
qed simp

text \<open>
  C21. Isolation: as long as a connection with a password has not sent the right one, the frames it
  sends leave the store to the others, and the bytes it is answered and the way it ends are the
  same for every content of the store, every clock and all activity of other connections.
\<close>

theorem unauthenticated_isolated:
  assumes "auth_password (conn x) = Some sec" and "\<not> authenticated (conn x)"
    and "\<forall>f \<in> set fs. \<forall>pw. Command_try_from f = Inr (AUTH pw) \<longrightarrow> \<not> ct_eq (expose sec) pw"
    and "run_frames ct_eq expose env x fs = (y, exit)"
    and "env_write env' = env_write env"
  shows "\<not> authenticated (conn y) \<and>
    run_frames ct_eq expose env' (x\<lparr>store := s\<rparr>) fs =
      (y\<lparr>store := fold (env_others env') [count x..<count y] s\<rparr>, exit)"
  using assms(1-4)
proof (induction fs arbitrary: x s)
  case (Cons f fs)
  obtain z g where z: "handle_frame ct_eq expose env x f = (z, g)" by fastforce
  have no: "\<forall>pw. Command_try_from f = Inr (AUTH pw) \<longrightarrow> \<not> ct_eq (expose sec) pw"
    using Cons.prems(3) by simp
  note step = handle_frame_unauthenticated [OF Cons.prems(1,2) no z]
  show ?case
  proof (cases g)
    case None
    with Cons.prems(4) z have rest: "run_frames ct_eq expose env z fs = (y, exit)" by simp
    have "[count x..<count y] = count x # [count z..<count y]"
      using run_frames_count [OF rest] step(1) by (simp add: upt_rec)
    with Cons.IH [OF _ _ _ rest, of "env_others env' (count x) s"] step(1) step(2) [OF assms(5)] None Cons.prems(3)
    show ?thesis by simp
  next
    case (Some e)
    with Cons.prems(4) z step(1) step(2) [OF assms(5)] show ?thesis by auto
  qed
qed simp

theorem unauthenticated_isolated_witness:
  "run_frames (=) id \<lparr>env_clock = (\<lambda>_. 7), env_others = (\<lambda>_ s. s), env_write = (\<lambda>_. None)\<rparr>
     (session_start (Some ''pw'') Store_new\<lparr>store := snd (Store_set Store_new ''k'' ''v'')\<rparr>)
     [request_frame ''GET'' [''k'']] =
   (session_start (Some ''pw'') (snd (Store_set Store_new ''k'' ''v''))
     \<lparr>conn := \<lparr>auth_password = Some ''pw'', authenticated = False,
        written = to_bytes (SimpleError ''NOAUTH Authentication required'')\<rparr>, count := 1\<rparr>, None)"
proof -
  let ?env = "\<lparr>env_clock = (\<lambda>_. 0), env_others = (\<lambda>_ s. s), env_write = (\<lambda>_. None)\<rparr> :: Env"
  have cmd: "Command_try_from (request_frame ''GET'' [''k'']) = Inr (GET ''k'')"
    by (simp add: keyword_distinct)
  then have "run_frames (=) id ?env (session_start (Some ''pw'') Store_new) [request_frame ''GET'' [''k'']] =
     (session_start (Some ''pw'') Store_new\<lparr>conn := \<lparr>auth_password = Some ''pw'', authenticated = False,
        written = to_bytes (SimpleError ''NOAUTH Authentication required'')\<rparr>, count := 1\<rparr>, None)"
    by (simp add: handle_frame_def outcome_of_def process_command_def can_execute_def is_authorized_def
        session_start_def Connection_new_def)
  from unauthenticated_isolated [OF _ _ _ this, where sec = "''pw''" and s = "snd (Store_set Store_new ''k'' ''v'')"
      and env' = "\<lparr>env_clock = (\<lambda>_. 7), env_others = (\<lambda>_ s. s), env_write = (\<lambda>_. None)\<rparr>"] cmd
  show ?thesis by (simp add: session_start_def Connection_new_def)
qed

text \<open>
  C22. Authentication: when the comparison of the crate decides equality, a connection that began
  unauthenticated is authenticated after a sequence of frames exactly if one of the frames it
  handled was an \<open>AUTH\<close> with the configured password, byte for byte.
\<close>

theorem authentication_exact:
  assumes "\<forall>a b. ct_eq a b \<longleftrightarrow> a = b"
    and "auth_password (conn x) = Some sec" and "\<not> authenticated (conn x)"
    and "run_frames ct_eq expose env x fs = (y, exit)"
  shows "authenticated (conn y) \<longleftrightarrow>
    (\<exists>f \<in> set (take (count y - count x) fs). Command_try_from f = Inr (AUTH (expose sec)))"
proof -
  have "authenticated (conn y) \<longleftrightarrow> authenticated (conn x) \<or>
      (\<exists>f \<in> set (take (count y - count x) fs). Command_try_from f = Inr (AUTH (expose sec)))"
    using assms(2,4)
  proof (induction fs arbitrary: x)
    case (Cons f fs)
    obtain z g where z: "handle_frame ct_eq expose env x f = (z, g)" by fastforce
    note step = handle_frame_authenticates [OF Cons.prems(1) assms(1) z]
    show ?case
    proof (cases g)
      case None
      with Cons.prems(2) z have rest: "run_frames ct_eq expose env z fs = (y, exit)" by simp
      then have "count y - count x = Suc (count y - count z)"
        using step run_frames_count [OF rest] by simp
      with Cons.IH [OF _ rest] step show ?thesis by auto
    qed (use Cons.prems z step in auto)
  qed simp
  with assms(3) show ?thesis by simp
qed

theorem authentication_exact_witness:
  "authenticated (conn (fst (run_frames (=) id \<lparr>env_clock = (\<lambda>_. 0), env_others = (\<lambda>_ s. s), env_write = (\<lambda>_. None)\<rparr>
     (session_start (Some ''pw'') Store_new) [request_frame ''AUTH'' [''pw'']])))"
proof -
  let ?env = "\<lparr>env_clock = (\<lambda>_. 0), env_others = (\<lambda>_ s. s), env_write = (\<lambda>_. None)\<rparr> :: Env"
  let ?x = "session_start (Some ''pw'') Store_new"
  have cmd: "Command_try_from (request_frame ''AUTH'' [''pw'']) = Inr (AUTH ''pw'')"
    by (simp add: keyword_distinct)
  obtain y e where r: "run_frames (=) id ?env ?x [request_frame ''AUTH'' [''pw'']] = (y, e)" by fastforce
  have "count y = 1 \<and> count ?x = 0"
    using r by (auto simp: handle_frame_def outcome_of_def process_command_def can_execute_def cmd
        session_start_def Connection_new_def authenticate_connection_def)
  with authentication_exact [where ct_eq = "(=)", OF _ _ _ r, of "''pw''"] cmd r show ?thesis
    by (simp add: session_start_def Connection_new_def)
qed

text \<open>
  C23. The handler does not see how the stream is cut: if the whole stream decodes to some frames,
  then reading it in any non-empty pieces handles exactly these frames in order, stops where they
  stop it, and otherwise ends the connection when the stream is malformed after them.
\<close>

theorem run_independent_of_reads:
  assumes "memchr_law mc" and "[] \<notin> set cs"
    and "parse_frames mc Parser_new (concat cs) = Some (q, fs, halt)"
    and "run_frames ct_eq expose env (session_start password s) fs = (y, exit)"
  shows "\<exists>p. run mc ct_eq expose env (session_start password s) (map Read cs) =
    (y\<lparr>parser := p\<rparr>, if exit = None \<and> halt \<noteq> None then Some ReturnOk else exit)"
  using run_reads [OF assms(1) _ assms(2), of "session_start password s"] assms(3,4)
  by (simp add: session_start_def)

theorem run_independent_of_reads_witness:
  "\<exists>p. run index_of (=) id \<lparr>env_clock = (\<lambda>_. 0), env_others = (\<lambda>_ s. s), env_write = (\<lambda>_. None)\<rparr>
     (session_start None Store_new) (map Read [''PI'', ''NG'' @ [LF], ''$-9'' @ CRLF]) =
   (session_start None Store_new\<lparr>conn := \<lparr>auth_password = None, authenticated = False, written = ''+PONG'' @ CRLF\<rparr>,
      count := 1, parser := p\<rparr>, Some ReturnOk)"
proof -
  let ?env = "\<lparr>env_clock = (\<lambda>_. 0), env_others = (\<lambda>_ s. s), env_write = (\<lambda>_. None)\<rparr> :: Env"
  let ?y = "session_start None Store_new\<lparr>conn := \<lparr>auth_password = None :: bytes option, authenticated = False,
      written = ''+PONG'' @ CRLF\<rparr>, count := 1\<rparr>"
  have ping: "Command_try_from (Array (Some [Bulk (Some ''PING'')])) = Inr PING"
    using keyword_distinct(1) [of "''PING''" "[]"] by (simp add: request_frame_def)
  have "run_frames (=) id ?env (session_start None Store_new) [Array (Some [Bulk (Some ''PING'')])] = (?y, None)"
    by (simp add: handle_frame_def outcome_of_def process_command_def can_execute_def
        session_start_def Connection_new_def ping)
  note run = this
  have "parse_frames index_of Parser_new (concat [''PI'', ''NG'' @ [LF], ''$-9'' @ CRLF]) =
      Some (\<lparr>state = Error InvalidLength, buf = [], stack = []\<rparr>, [Array (Some [Bulk (Some ''PING'')])], Some InvalidLength)"
    by (simp add: parse_frames_def parser_eval)
  from run_independent_of_reads [OF index_of_memchr _ this run]
  show ?thesis by (simp del: run.simps concat.simps)
qed

section \<open>Replies\<close>

text \<open>
  Which frames may answer a request, for a server with and without a password, whatever the store
  holds: the reply named by the README for each command, the refusal before authentication, and the
  texts of the errors. \<open>QUIT\<close> and frames that are no request have no reply.
\<close>

definition denied :: "bool \<Rightarrow> Frame \<Rightarrow> bool" where
  "denied secured r \<longleftrightarrow> secured \<and> r = SimpleError ''NOAUTH Authentication required''"

fun command_reply :: "bool \<Rightarrow> Command \<Rightarrow> Frame \<Rightarrow> bool" where
  "command_reply secured PING r \<longleftrightarrow> r = SimpleString ''PONG''"
| "command_reply secured (SET _ _) r \<longleftrightarrow> r = SimpleString ''OK'' \<or> denied secured r"
| "command_reply secured (GET _) r \<longleftrightarrow> (case r of Bulk _ \<Rightarrow> True | _ \<Rightarrow> denied secured r)"
| "command_reply secured (DEL _) r \<longleftrightarrow> r = Integer 0 \<or> r = Integer 1 \<or> denied secured r"
| "command_reply secured (EXPIRE _ _) r \<longleftrightarrow> r = Integer 0 \<or> r = Integer 1 \<or> denied secured r"
| "command_reply secured (TTL _) r \<longleftrightarrow> (case r of Integer _ \<Rightarrow> True | _ \<Rightarrow> denied secured r)"
| "command_reply secured (AUTH _) r \<longleftrightarrow>
     (if secured then r = SimpleString ''OK'' \<or> r = SimpleError ''AUTH invalid password''
      else r = SimpleError ''AUTH called without any password configured'')"
| "command_reply secured QUIT r \<longleftrightarrow> False"
| "command_reply secured NOOP r \<longleftrightarrow> False"

definition reply_to :: "bool \<Rightarrow> Frame \<Rightarrow> Frame \<Rightarrow> bool" where
  "reply_to secured f r \<longleftrightarrow>
     (case Command_try_from f of
        Inr cmd \<Rightarrow> command_reply secured cmd r
      | Inl UnknownCommand \<Rightarrow> r = SimpleError ''Unknown Command''
      | Inl (WrongArity _ _ _) \<Rightarrow> r = SimpleError ''Wrong number of arguments''
      | Inl WrongArgumentType \<Rightarrow> r = SimpleError ''Wrong Argument Type''
      | Inl _ \<Rightarrow> False)"

lemma Command_try_from_not_NOOP: "Command_try_from f \<noteq> Inr NOOP"
proof -
  have known: "parse_ping as \<noteq> Inr NOOP" "parse_quit as \<noteq> Inr NOOP" "parse_get as \<noteq> Inr NOOP"
      "parse_set as \<noteq> Inr NOOP" "parse_del as \<noteq> Inr NOOP" "parse_expire as \<noteq> Inr NOOP"
      "parse_ttl as \<noteq> Inr NOOP" "parse_auth as \<noteq> Inr NOOP" for as
    by (auto split: sum.splits elim!: parse_ping.elims parse_quit.elims parse_get.elims parse_set.elims
        parse_del.elims parse_expire.elims parse_ttl.elims parse_auth.elims)
  show ?thesis by (auto simp: Command_try_from_def known split: sum.splits list.splits if_splits)
qed

lemma outcome_of_cases:
  assumes "outcome_of ct ex c s now f = (out, c', s')"
  obtains r where "out = Inr (Respond r)" "reply_to (auth_password c \<noteq> None) f r"
  | "out = Inr Quit" "Command_try_from f = Inr QUIT"
  | "out = Inl ReturnOk" "Command_try_from f = Inl InvalidCommandFrame"
  | k n where "out = Inl TaskPanic" "Command_try_from f = Inr (EXPIRE k n)"
proof (cases "Command_try_from f")
  case (Inl e)
  with assms request_not_Io [of f] that show ?thesis
    by (cases e) (auto simp: outcome_of_def reply_to_def)
next
  case (Inr cmd)
  have expire: "fst (Store_expire s now k n) = Some m \<Longrightarrow> m = 0 \<or> m = 1" for k n m
    by (auto simp: Store_expire_def Let_def split: option.splits if_splits)
  show ?thesis
  proof (cases "can_execute c cmd")
    case False
    with assms Inr show ?thesis
      by (intro that(1) [of "SimpleError ''NOAUTH Authentication required''"])
        (auto simp: outcome_of_def process_command_def reply_to_def denied_def can_execute_def
          is_authorized_def split: Command.splits)
  next
    case True
    with assms Inr Command_try_from_not_NOOP [of f] that show ?thesis
      by (cases cmd) (auto simp: outcome_of_def process_command_def authenticate_connection_def
          reply_to_def split: if_splits option.splits dest!: expire)
  qed
qed

lemma outcome_of_password: "outcome_of ct ex c s now f = (out, c', s') \<Longrightarrow> auth_password c' = auth_password c"
  by (auto simp: outcome_of_def process_command_def authenticate_connection_def
      split: sum.splits Error.splits if_splits Command.splits option.splits)

text \<open>
  C24. One reply per request, in order: while writing succeeds, the bytes written are those of one
  frame for each handled request, and the $i$-th frame is a reply to the $i$-th request: \<open>PONG\<close> to
  \<open>PING\<close>, \<open>OK\<close> to \<open>SET\<close>, a bulk string to \<open>GET\<close>, 0 or 1 to \<open>DEL\<close> and \<open>EXPIRE\<close>, a number to \<open>TTL\<close>, the
  outcome of \<open>AUTH\<close>, the refusal where a password is configured, and the text of the error for an
  unknown command, a wrong arity or a wrong argument. Only the frame that ends the connection has
  none; and a connection is ended by a frame only on \<open>QUIT\<close> or on a frame that is no request, or when
  an \<open>EXPIRE\<close> panics.
\<close>

theorem one_reply_per_request:
  assumes "env_write env = (\<lambda>_. None)" and "run_frames ct_eq expose env x fs = (y, exit)"
  shows "\<exists>rs. written (conn y) = written (conn x) @ concat (map to_bytes rs) \<and>
    list_all2 (reply_to (auth_password (conn x) \<noteq> None)) (take (length rs) fs) rs \<and>
    (case exit of
       None \<Rightarrow> length rs = length fs
     | Some e \<Rightarrow> length rs < length fs \<and>
         (e = ReturnOk \<and> Command_try_from (fs ! length rs) \<in> {Inr QUIT, Inl InvalidCommandFrame} \<or>
          e = TaskPanic \<and> (\<exists>k n. Command_try_from (fs ! length rs) = Inr (EXPIRE k n))))"
  using assms(2)
proof (induction fs arbitrary: x)
  case (Cons f fs)
  obtain out c s where o: "outcome_of ct_eq expose (conn x) (env_others env (count x) (store x))
      (env_clock env (count x)) f = (out, c, s)" by (metis prod_cases3)
  have w: "written c = written (conn x)" "auth_password c = auth_password (conn x)"
    by (rule outcome_of_written [OF o], rule outcome_of_password [OF o])
  let ?x = "x\<lparr>conn := c, store := s, count := Suc (count x)\<rparr>"
  have h: "handle_frame ct_eq expose env x f = answer None ?x out"
    by (simp add: handle_frame_def Let_def o assms(1))
  show ?case
    using o
  proof (cases rule: outcome_of_cases)
    case (1 r)
    let ?z = "?x\<lparr>conn := c\<lparr>written := written c @ to_bytes r\<rparr>\<rparr>"
    have "run_frames ct_eq expose env ?z fs = (y, exit)"
      using Cons.prems h 1 by simp
    from Cons.IH [OF this] obtain rs where "written (conn y) = written (conn ?z) @ concat (map to_bytes rs)"
      and "list_all2 (reply_to (auth_password (conn ?z) \<noteq> None)) (take (length rs) fs) rs"
      and "case exit of None \<Rightarrow> length rs = length fs
        | Some e \<Rightarrow> length rs < length fs \<and>
         (e = ReturnOk \<and> Command_try_from (fs ! length rs) \<in> {Inr QUIT, Inl InvalidCommandFrame} \<or>
          e = TaskPanic \<and> (\<exists>k n. Command_try_from (fs ! length rs) = Inr (EXPIRE k n)))"
      by blast
    with w 1 show ?thesis by (intro exI [of _ "r # rs"]) (simp split: option.splits)
  qed (use Cons.prems h w in \<open>auto intro!: exI [of _ "[]"]\<close>)
qed simp

theorem one_reply_per_request_witness:
  "\<exists>rs. run_frames (=) id \<lparr>env_clock = (\<lambda>_. 0), env_others = (\<lambda>_ s. s), env_write = (\<lambda>_. None)\<rparr>
     (session_start None Store_new) [request_frame ''PING'' [], request_frame ''QUIT'' []] =
   (session_start None Store_new\<lparr>conn := \<lparr>auth_password = None, authenticated = False,
      written = concat (map to_bytes rs)\<rparr>, count := 2\<rparr>, Some ReturnOk) \<and> rs = [SimpleString ''PONG'']"
proof -
  let ?env = "\<lparr>env_clock = (\<lambda>_. 0), env_others = (\<lambda>_ s. s), env_write = (\<lambda>_. None)\<rparr> :: Env"
  let ?y = "session_start None Store_new\<lparr>conn := \<lparr>auth_password = None :: bytes option, authenticated = False,
      written = ''+PONG'' @ CRLF\<rparr>, count := 2\<rparr>"
  have run: "run_frames (=) id ?env (session_start None Store_new) [request_frame ''PING'' [], request_frame ''QUIT'' []] =
      (?y, Some ReturnOk)"
    by (simp add: handle_frame_def outcome_of_def process_command_def can_execute_def
        session_start_def Connection_new_def keyword_distinct numeral_2_eq_2)
  have ping: "reply_to False (request_frame ''PING'' []) r \<longleftrightarrow> r = SimpleString ''PONG''" for r
    by (simp add: reply_to_def keyword_distinct)
  have "Command_try_from (request_frame ''PING'' []) = Inr PING" by (simp add: keyword_distinct)
  with one_reply_per_request [OF _ run] obtain rs where
    "written (conn ?y) = concat (map to_bytes rs)" "length rs = 1"
    "list_all2 (reply_to False) (take (length rs) [request_frame ''PING'' [], request_frame ''QUIT'' []]) rs"
    by (auto simp: session_start_def Connection_new_def less_Suc_eq numeral_2_eq_2)
  moreover from this have "rs = [SimpleString ''PONG'']" by (auto simp: length_Suc_conv ping)
  ultimately show ?thesis using run by auto
qed

section \<open>End to end\<close>

text \<open>
  The request a client sends for an operation of the store and the reply it expects for the
  result; what others do to the store before a frame, as a list of timed events; and the
  specification of a session: its operations on the abstract map, with the events of the others
  between them.
\<close>

fun op_command :: "Op \<Rightarrow> Command" where
  "op_command (OpSet k v) = SET k v"
| "op_command (OpGet k) = GET k"
| "op_command (OpDel k) = DEL k"
| "op_command (OpExpire k n) = EXPIRE k n"
| "op_command (OpTtl k) = TTL k"

definition op_request :: "Op \<Rightarrow> Frame" where
  "op_request op = (case the (request_words (op_command op)) of (kw, args) \<Rightarrow> request_frame kw args)"

fun op_reply :: "Op \<Rightarrow> Response \<Rightarrow> Frame" where
  "op_reply (OpDel k) (Value v) = Integer (if v = None then 0 else 1)"
| "op_reply op (Value v) = Bulk v"
| "op_reply op (Number n) = Integer n"
| "op_reply op _ = SimpleString ''OK''"

definition apply_events :: "(Instant \<times> Event) list \<Rightarrow> Store \<Rightarrow> Store" where
  "apply_events es s = snd (run_timed store_event s es)"

definition spec_events :: "(Instant \<times> Event) list \<Rightarrow> view \<Rightarrow> view" where
  "spec_events es m = snd (run_timed spec_event m es)"

fun spec_session :: "(nat \<Rightarrow> (Instant \<times> Event) list) \<Rightarrow> (nat \<Rightarrow> Instant) \<Rightarrow> nat \<Rightarrow> view \<Rightarrow> Op list \<Rightarrow> Response list" where
  "spec_session others clk n m [] = []"
| "spec_session others clk n m (op # ops) =
     (let (r, m') = spec_op (spec_events (others n) m) (clk n) op in r # spec_session others clk (Suc n) m' ops)"

definition session_times :: "(nat \<Rightarrow> (Instant \<times> Event) list) \<Rightarrow> (nat \<Rightarrow> Instant) \<Rightarrow> nat \<Rightarrow> nat \<Rightarrow> Instant list" where
  "session_times others clk n len = concat (map (\<lambda>i. map fst (others i) @ [clk i]) [n..<n + len])"

lemma Command_try_from_op: "Command_try_from (op_request op) = Inr (op_command op)"
  by (cases op) (simp_all add: op_request_def keyword_distinct)

lemma outcome_of_op:
  assumes "is_authorized c" and "run_op s now op = (r, s')" and "r \<noteq> Panicked"
  shows "outcome_of ct ex c s now (op_request op) = (Inr (Respond (op_reply op r)), c, s')"
  using assms
  by (cases op) (auto simp: outcome_of_def Command_try_from_op process_command_def can_execute_def run_op_def
      split: option.splits)

lemma apply_events_agrees:
  "agrees s m t0 \<Longrightarrow> sorted (t0 # map fst es @ [t1]) \<Longrightarrow> agrees (apply_events es s) (spec_events es m) t1"
  using hist.run_timed_refines by (simp add: apply_events_def spec_events_def)

lemma session_times_Suc:
  "session_times others clk n (Suc len) = map fst (others n) @ clk n # session_times others clk (Suc n) len"
  by (simp add: session_times_def upt_rec [of n])

lemma run_frames_ops:
  assumes "env_others env = (\<lambda>n. apply_events (others n))" and "env_write env = (\<lambda>_. None)"
    and "agrees (store x) m t0" and "is_authorized (conn x)"
    and "sorted (t0 # session_times others (env_clock env) (count x) (length ops))"
    and "spec_session others (env_clock env) (count x) m ops = rs" and "Panicked \<notin> set rs"
  shows "\<exists>y. run_frames ct ex env x (map op_request ops) = (y, None) \<and>
    written (conn y) = written (conn x) @ concat (map2 (\<lambda>op r. to_bytes (op_reply op r)) ops rs)"
  using assms(3-)
proof (induction ops arbitrary: x m t0 rs)
  case (Cons op ops)
  let ?n = "count x" and ?now = "env_clock env (count x)"
  let ?s = "apply_events (others ?n) (store x)" and ?m = "spec_events (others ?n) m"
  have times: "sorted (t0 # map fst (others ?n) @ [?now])"
    "sorted (?now # session_times others (env_clock env) (Suc ?n) (length ops))"
    using Cons.prems(3) by (auto simp: session_times_Suc sorted_append)
  have ag: "agrees ?s ?m ?now" using Cons.prems(1) times(1) by (rule apply_events_agrees)
  obtain r s' where op: "run_op ?s ?now op = (r, s')" by fastforce
  obtain m' where sp: "spec_op ?m ?now op = (r, m')"
    using run_op_agrees(1) [OF ag, of op] op by (cases "spec_op ?m ?now op") simp
  have ag': "agrees s' m' ?now" using run_op_agrees(2) [OF ag, of op] op sp by simp
  obtain rs' where rs: "rs = r # rs'" "spec_session others (env_clock env) (Suc ?n) m' ops = rs'"
    using Cons.prems(4) sp by auto
  let ?y = "x\<lparr>store := s', count := Suc ?n, conn := (conn x)\<lparr>written := written (conn x) @ to_bytes (op_reply op r)\<rparr>\<rparr>"
  have "handle_frame ct ex env x (op_request op) = (?y, None)"
    using outcome_of_op [OF Cons.prems(2) op] rs(1) Cons.prems(5)
    by (auto simp: handle_frame_def Let_def assms(1,2))
  moreover have "is_authorized (conn ?y)" using Cons.prems(2) by (simp add: is_authorized_def)
  ultimately show ?case
    using Cons.IH [of ?y m' ?now rs'] ag' times(2) rs Cons.prems(5) by auto
qed simp

text \<open>
  C25. End to end, bytes to bytes: a client of a server without a password encodes operations as
  requests and its bytes arrive in any pieces; between its requests other connections and the
  sweeper do anything to the store. If no deadline overflows, the bytes written back are exactly
  the encoded replies that the abstract map with deadlines gives for that interleaving, in order,
  and the connection stays open.
\<close>

theorem session_end_to_end:
  assumes "memchr_law mc" and "store_ok s"
    and "env_others env = (\<lambda>n. apply_events (others n))" and "env_write env = (\<lambda>_. None)"
    and "sorted (t0 # session_times others (env_clock env) 0 (length ops))"
    and "\<forall>op \<in> set ops. wf_frame (op_request op)"
    and "[] \<notin> set cs" and "concat cs = concat (map (\<lambda>op. to_bytes (op_request op)) ops)"
    and "spec_session others (env_clock env) 0 (live s t0) ops = rs" and "Panicked \<notin> set rs"
  shows "\<exists>y. run mc ct_eq expose env (session_start None s) (map Read cs) = (y, None) \<and>
    written (conn y) = concat (map2 (\<lambda>op r. to_bytes (op_reply op r)) ops rs)"
proof -
  let ?x = "session_start None s"
  have "agrees (store ?x) (live s t0) t0"
    using assms(2) by (simp add: agrees_def visible_visible session_start_def)
  moreover have "is_authorized (conn ?x)"
    by (simp add: session_start_def Connection_new_def is_authorized_def)
  ultimately obtain y where y: "run_frames ct_eq expose env ?x (map op_request ops) = (y, None)"
    "written (conn y) = concat (map2 (\<lambda>op r. to_bytes (op_reply op r)) ops rs)"
    using run_frames_ops [where ct = ct_eq and ex = expose, OF assms(3,4), of ?x "live s t0" t0 ops rs] assms(5,9,10)
    by (auto simp: session_start_def Connection_new_def)
  have "parse_frames mc Parser_new (concat cs) = Some (Parser_new, map op_request ops, None)"
    using parse_frames_encoded [of "map op_request ops" mc] assms(6,8) by (simp add: o_def)
  from run_reads [OF assms(1) _ assms(7) _ y(1)] this
  obtain p where "run mc ct_eq expose env ?x (map Read cs) = (y\<lparr>parser := p\<rparr>, None)"
    by (auto simp: session_start_def)
  with y(2) show ?thesis by simp
qed

theorem session_end_to_end_witness:
  "\<exists>y. run index_of (=) id \<lparr>env_clock = (\<lambda>_. 3), env_others = (\<lambda>n. apply_events (if n = 0 then [(2, Sweep)] else [])), env_write = (\<lambda>_. None)\<rparr>
      (session_start None Store_new)
      (map Read [[CHR ''*''], tl (to_bytes (request_frame ''SET'' [''k'', ''v''])) @ to_bytes (request_frame ''GET'' [''k''])])
    = (y, None) \<and>
    written (conn y) = ''+OK'' @ CRLF @ ''$1'' @ CRLF @ ''v'' @ CRLF"
proof -
  let ?env = "\<lparr>env_clock = (\<lambda>_. 3), env_others = (\<lambda>n. apply_events (if n = 0 then [(2, Sweep)] else [])), env_write = (\<lambda>_. None)\<rparr> :: Env"
  have "\<exists>y. run index_of (=) id ?env (session_start None Store_new)
      (map Read [[CHR ''*''], tl (to_bytes (request_frame ''SET'' [''k'', ''v''])) @ to_bytes (request_frame ''GET'' [''k''])])
    = (y, None) \<and> written (conn y) =
      concat (map2 (\<lambda>op r. to_bytes (op_reply op r)) [OpSet ''k'' ''v'', OpGet ''k''] [Done, Value (Some ''v'')])"
  proof (rule session_end_to_end [where others = "\<lambda>n. if n = 0 then [(2, Sweep)] else []" and ?t0.0 = 0])
    show "sorted (0 # session_times (\<lambda>n. if n = 0 then [(2, Sweep)] else []) (env_clock ?env) 0
        (length [OpSet ''k'' ''v'', OpGet ''k'']))"
      by (simp add: session_times_def)
  qed (simp_all add: index_of_memchr op_request_def size_eval request_frame_def
      spec_events_def spec_event_def spec_op_def visible_def)
  then show ?thesis by (simp add: nat_to_string.simps digit_char_def)
qed

end
