(* ===== verification/Snapshots.thy ===== *)
theory Snapshots
  imports Kv_Store
begin

text \<open>
  Snapshots of the store (\<open>src/src/store.rs\<close>, from \<open>to_snapshot\<close> on): the snapshot format, the
  conversion of monotonic deadlines to Unix milliseconds and back, and \<open>dump\<close> and \<open>restore\<close>. Every
  reading of the two clocks is an argument. The serializer (crate \<open>serde_json\<close>) is a parameter:
  \<open>to_vec\<close> and \<open>from_slice\<close>, of which the theorems use that reading back what was written gives the
  same snapshot. A panic (system time before the Unix epoch) is \<open>None\<close>.
\<close>

section \<open>Snapshot data\<close>

record SnapshotValue =
  snapshot_bytes :: bytes
  expiration_time_unix :: "nat option"

record SnapshotEntry =
  entry_key :: Key
  entry_value :: SnapshotValue

record Snapshot =
  entries :: "SnapshotEntry list"

datatype SnapshotError = DurationOverflow | DuplicateKey

datatype 'json RestoreError = InvalidSnapshot 'json | InvalidData SnapshotError

fun SnapshotError_fmt :: "SnapshotError \<Rightarrow> string" where
  "SnapshotError_fmt DurationOverflow = ''snapshot expiration exceeds supported duration''"
| "SnapshotError_fmt DuplicateKey = ''snapshot contains duplicate keys''"

fun RestoreError_fmt :: "('json \<Rightarrow> string) \<Rightarrow> 'json RestoreError \<Rightarrow> string" where
  "RestoreError_fmt json_fmt (InvalidSnapshot err) = json_fmt err"
| "RestoreError_fmt json_fmt (InvalidData err) = SnapshotError_fmt err"

definition RestoreError_from_json :: "'json \<Rightarrow> 'json RestoreError" where
  "RestoreError_from_json value = InvalidSnapshot value"

definition RestoreError_from_SnapshotError :: "SnapshotError \<Rightarrow> 'json RestoreError" where
  "RestoreError_from_SnapshotError value = InvalidData value"

section \<open>Clocks and conversions\<close>

text \<open>
  A reading of both clocks: the time since the Unix epoch (\<open>None\<close> before it) and the monotonic
  instant. Milliseconds are \<open>u128\<close> in the code; their addition wraps here, and
  \<open>expiration_unix\<close> below shows that it never does.
\<close>

record Clock =
  sys_time :: "Duration option"
  mono :: Instant

definition unix_now_millis :: "Clock \<Rightarrow> nat option" where
  "unix_now_millis c = map_option as_millis (sys_time c)"

definition u128_add :: "nat \<Rightarrow> nat \<Rightarrow> nat" where
  "u128_add a b = (a + b) mod 2 ^ 128"

definition u64_try_from :: "nat \<Rightarrow> nat option" where
  "u64_try_from n = (if n \<le> u64_max then Some n else None)"

definition SnapshotValue_from :: "Clock \<Rightarrow> StoreValue \<Rightarrow> SnapshotValue option" where
  "SnapshotValue_from c v =
     map_option (\<lambda>unix. \<lparr>snapshot_bytes = stored_value v,
         expiration_time_unix =
           map_option (\<lambda>t. u128_add (as_millis (duration_since t (mono c))) unix) (expiration_time v)\<rparr>)
       (unix_now_millis c)"

definition SnapshotValue_from_ref :: "Clock \<Rightarrow> StoreValue \<Rightarrow> SnapshotValue option" where
  "SnapshotValue_from_ref c v =
     map_option (\<lambda>unix. \<lparr>snapshot_bytes = stored_value v,
         expiration_time_unix =
           map_option (\<lambda>t. u128_add (as_millis (duration_since t (mono c))) unix) (expiration_time v)\<rparr>)
       (unix_now_millis c)"

definition expiration_try_from :: "nat \<Rightarrow> Instant \<Rightarrow> nat \<Rightarrow> SnapshotError + Instant" where
  "expiration_try_from unix store_now t =
     (let remaining = t - unix in
      case u64_try_from remaining of
        None \<Rightarrow> Inl DurationOverflow
      | Some remaining_millis \<Rightarrow>
          (case checked_add store_now (duration_from_millis remaining_millis) of
             None \<Rightarrow> Inl DurationOverflow
           | Some e \<Rightarrow> Inr e))"

definition StoreValue_try_from :: "Clock \<Rightarrow> SnapshotValue \<Rightarrow> (SnapshotError + StoreValue) option" where
  "StoreValue_try_from c v =
     map_option (\<lambda>unix.
         case expiration_time_unix v of
           None \<Rightarrow> Inr \<lparr>stored_value = snapshot_bytes v, expiration_time = None\<rparr>
         | Some t \<Rightarrow>
             (case expiration_try_from unix (mono c) t of
                Inl e \<Rightarrow> Inl e
              | Inr e \<Rightarrow> Inr \<lparr>stored_value = snapshot_bytes v, expiration_time = Some e\<rparr>))
       (unix_now_millis c)"

section \<open>Taking and loading a snapshot\<close>

text \<open>The \<open>i\<close>-th conversion reads the clocks as \<open>clk i\<close>.\<close>

fun snapshot_entries :: "(nat \<Rightarrow> Clock) \<Rightarrow> nat \<Rightarrow> (Key \<times> StoreValue) list \<Rightarrow> SnapshotEntry list option" where
  "snapshot_entries clk i [] = Some []"
| "snapshot_entries clk i ((key, v) # kvs) =
     (case SnapshotValue_from_ref (clk i) v of
        None \<Rightarrow> None
      | Some sv \<Rightarrow>
          map_option ((#) \<lparr>entry_key = key, entry_value = sv\<rparr>) (snapshot_entries clk (Suc i) kvs))"

definition to_snapshot :: "Store \<Rightarrow> Instant \<Rightarrow> (nat \<Rightarrow> Clock) \<Rightarrow> Snapshot option" where
  "to_snapshot s now clk =
     map_option (\<lambda>es. \<lparr>entries = es\<rparr>)
       (snapshot_entries clk 0 (filter (\<lambda>(_, v). \<not> is_expired v now) (hm_iter (hashmap s))))"

fun unique_keys :: "Key list \<Rightarrow> SnapshotEntry list \<Rightarrow> bool" where
  "unique_keys seen [] = True"
| "unique_keys seen (e # es) =
     (if entry_key e \<in> set seen then False else unique_keys (entry_key e # seen) es)"

fun collect_entries ::
  "(nat \<Rightarrow> Clock) \<Rightarrow> nat \<Rightarrow> SnapshotEntry list \<Rightarrow> (SnapshotError + (Key \<times> StoreValue) list) option"
where
  "collect_entries clk i [] = Some (Inr [])"
| "collect_entries clk i (e # es) =
     (case StoreValue_try_from (clk i) (entry_value e) of
        None \<Rightarrow> None
      | Some (Inl err) \<Rightarrow> Some (Inl err)
      | Some (Inr v) \<Rightarrow>
          (case collect_entries clk (Suc i) es of
             None \<Rightarrow> None
           | Some (Inl err) \<Rightarrow> Some (Inl err)
           | Some (Inr kvs) \<Rightarrow> Some (Inr ((entry_key e, v) # kvs))))"

definition not_past :: "nat \<Rightarrow> SnapshotEntry \<Rightarrow> bool" where
  "not_past now e \<longleftrightarrow>
     (case expiration_time_unix (entry_value e) of None \<Rightarrow> True | Some t \<Rightarrow> t > now)"

definition heap_of :: "(Key \<times> StoreValue) list \<Rightarrow> (Instant \<times> Key) list" where
  "heap_of kvs =
     fold heap_push
       (List.map_filter (\<lambda>(key, v). map_option (\<lambda>t. (t, key)) (expiration_time v)) kvs) heap_new"

definition from_snapshot :: "Clock \<Rightarrow> (nat \<Rightarrow> Clock) \<Rightarrow> Snapshot \<Rightarrow> (SnapshotError + Store) option" where
  "from_snapshot now clk snapshot =
     (case unix_now_millis now of
        None \<Rightarrow> None
      | Some now_unix_millis \<Rightarrow>
          if \<not> unique_keys [] (entries snapshot) then Some (Inl DuplicateKey) else
          (case collect_entries clk 0 (filter (not_past now_unix_millis) (entries snapshot)) of
             None \<Rightarrow> None
           | Some (Inl e) \<Rightarrow> Some (Inl e)
           | Some (Inr kvs) \<Rightarrow>
               (let m = hm_collect kvs in Some (Inr (from_parts m (heap_of (hm_iter m)))))))"

definition dump ::
  "(Snapshot \<Rightarrow> 'json + bytes) \<Rightarrow> Store \<Rightarrow> Instant \<Rightarrow> (nat \<Rightarrow> Clock) \<Rightarrow> ('json + bytes) option"
where
  "dump to_vec s now clk = map_option to_vec (to_snapshot s now clk)"

definition restore ::
  "(bytes \<Rightarrow> 'json + Snapshot) \<Rightarrow> Clock \<Rightarrow> (nat \<Rightarrow> Clock) \<Rightarrow> bytes \<Rightarrow> ('json RestoreError + Store) option"
where
  "restore from_slice now clk bytes =
     (case from_slice bytes of
        Inl e \<Rightarrow> Some (Inl (RestoreError_from_json e))
      | Inr snapshot \<Rightarrow> map_option (map_sum RestoreError_from_SnapshotError id) (from_snapshot now clk snapshot))"

text \<open>The serializer: what it wrote is read back as the same snapshot.\<close>

locale snapshot_codec =
  fixes to_vec :: "Snapshot \<Rightarrow> 'json + bytes" and from_slice :: "bytes \<Rightarrow> 'json + Snapshot"
  assumes read_back: "to_vec s = Inr b \<Longrightarrow> from_slice b = Inr s"
begin

lemma restore_dump:
  assumes "dump to_vec s now clk = Some (Inr b)"
  obtains snap where "to_snapshot s now clk = Some snap" "from_slice b = Inr snap"
    "\<And>now' clk'. restore from_slice now' clk' b = map_option (map_sum InvalidData id) (from_snapshot now' clk' snap)"
proof -
  obtain snap where snap: "to_snapshot s now clk = Some snap" "to_vec snap = Inr b"
    using assms by (auto simp: dump_def)
  have "restore from_slice now' clk' b = map_option (map_sum InvalidData id) (from_snapshot now' clk' snap)" for now' clk'
    using read_back [OF snap(2)] by (simp add: restore_def RestoreError_from_SnapshotError_def [abs_def])
  with snap(1) read_back [OF snap(2)] show ?thesis by (rule that)
qed

end

section \<open>Structure of the two passes\<close>

lemma unique_keys_distinct:
  "unique_keys seen es \<longleftrightarrow> distinct (map entry_key es) \<and> set seen \<inter> set (map entry_key es) = {}"
  by (induction seen es rule: unique_keys.induct) auto

lemma snapshot_entries_rel:
  "snapshot_entries clk i kvs = Some es \<Longrightarrow>
     list_all2 (\<lambda>(k, v) e. entry_key e = k \<and> (\<exists>j. SnapshotValue_from_ref (clk j) v = Some (entry_value e))) kvs es"
  by (induction clk i kvs arbitrary: es rule: snapshot_entries.induct)
    (auto split: option.splits)

lemma collect_entries_rel:
  "collect_entries clk i es = Some (Inr kvs) \<Longrightarrow>
     list_all2 (\<lambda>e (k, v). entry_key e = k \<and> (\<exists>j. StoreValue_try_from (clk j) (entry_value e) = Some (Inr v))) es kvs"
  by (induction clk i es arbitrary: kvs rule: collect_entries.induct)
    (auto split: option.splits sum.splits)

lemma list_all2_fst_eq: "list_all2 (\<lambda>(k, v) e. key e = k \<and> P v e) kvs es \<Longrightarrow> map fst kvs = map key es"
  by (induction rule: list_all2_induct) auto

lemma list_all2_key_eq: "list_all2 (\<lambda>e (k, v). key e = k \<and> P e v) es kvs \<Longrightarrow> map fst kvs = map key es"
  by (induction rule: list_all2_induct) auto

lemma list_all2_lookup:
  "list_all2 (\<lambda>e (k, v). key e = k \<and> P e v) es kvs \<Longrightarrow> map_of kvs k = Some v \<Longrightarrow>
     \<exists>e \<in> set es. key e = k \<and> P e v"
  by (induction rule: list_all2_induct) (auto split: if_splits)

lemma list_all2_right: "list_all2 P xs ys \<Longrightarrow> y \<in> set ys \<Longrightarrow> \<exists>x \<in> set xs. P x y"
  by (induction rule: list_all2_induct) auto

lemma set_heap_of:
  "set (heap_of kvs) = {(t, k). \<exists>v. (k, v) \<in> set kvs \<and> expiration_time v = Some t}"
proof -
  have *: "set (fold heap_push xs h) = set xs \<union> set h" for xs :: "(Instant \<times> Key) list" and h
    by (induction xs arbitrary: h) auto
  show ?thesis
    unfolding heap_of_def * by (auto simp: heap_new_def List.map_filter_def image_iff split_beta; force)
qed

lemma sorted_heap_of: "sorted (heap_of kvs)"
proof -
  have "sorted h \<Longrightarrow> sorted (fold heap_push xs h)" for xs h :: "(Instant \<times> Key) list"
    by (induction xs arbitrary: h) auto
  then show ?thesis by (simp add: heap_of_def)
qed

lemma expiration_try_from_Inr:
  "expiration_try_from u m t = Inr e \<longleftrightarrow>
     t - u \<le> u64_max \<and> e = m + (t - u) * 10 ^ 6 \<and> e < instant_limit"
  by (auto simp: expiration_try_from_def u64_try_from_def checked_add_def duration_from_millis_def Let_def)

lemma StoreValue_try_from_Inr:
  "StoreValue_try_from c v = Some (Inr w) \<longleftrightarrow>
     (\<exists>u. unix_now_millis c = Some u \<and> stored_value w = snapshot_bytes v \<and>
       (case expiration_time_unix v of
          None \<Rightarrow> expiration_time w = None
        | Some t \<Rightarrow> \<exists>e. expiration_try_from u (mono c) t = Inr e \<and> expiration_time w = Some e))"
proof (cases "unix_now_millis c")
  case (Some u)
  then show ?thesis
    by (cases w; cases "expiration_time_unix v")
      (auto simp: StoreValue_try_from_def split: sum.split)
qed (simp add: StoreValue_try_from_def)

lemma StoreValue_try_from_bound:
  "StoreValue_try_from c v = Some (Inr w) \<Longrightarrow> expiration_time w = Some t \<Longrightarrow> t < instant_limit"
  by (auto simp: StoreValue_try_from_Inr expiration_try_from_Inr split: option.splits)

lemma hm_collect_mem:
  "distinct (map fst kvs) \<Longrightarrow> (k, v) \<in> set (hm_iter (hm_collect kvs)) \<longleftrightarrow> map_of kvs k = Some v"
  by (simp add: hm.iter_mem hm_collect_get)

text \<open>What loading a snapshot does when it succeeds.\<close>

lemma from_snapshot_Inr:
  assumes "from_snapshot now clk snap = Some (Inr s)"
  obtains kvs n where "unix_now_millis now = Some n" "distinct (map entry_key (entries snap))"
    "list_all2 (\<lambda>e (k, v). entry_key e = k \<and> (\<exists>j. StoreValue_try_from (clk j) (entry_value e) = Some (Inr v)))
       (filter (not_past n) (entries snap)) kvs"
    "distinct (map fst kvs)" "\<And>k. hm_get k (hashmap s) = map_of kvs k"
    "s = from_parts (hm_collect kvs) (heap_of (hm_iter (hm_collect kvs)))"
proof -
  from assms obtain n kvs where n: "unix_now_millis now = Some n" "unique_keys [] (entries snap)"
    "collect_entries clk 0 (filter (not_past n) (entries snap)) = Some (Inr kvs)"
    "s = from_parts (hm_collect kvs) (heap_of (hm_iter (hm_collect kvs)))"
    by (auto simp: from_snapshot_def Let_def split: option.splits if_splits sum.splits)
  note rel = collect_entries_rel [OF n(3)]
  have "distinct (map entry_key (filter (not_past n) (entries snap)))"
    using n(2) by (simp add: unique_keys_distinct distinct_map_filter)
  then have d: "distinct (map fst kvs)" using list_all2_key_eq [OF rel] by simp
  show thesis
    by (rule that [OF n(1) _ rel d _ n(4)])
      (use n(2,4) d in \<open>simp_all add: unique_keys_distinct from_parts_def hm_collect_get\<close>)
qed

lemma from_snapshot_ok:
  assumes "from_snapshot now clk snap = Some (Inr s)"
  shows "store_ok s"
proof -
  from assms obtain kvs n where
    rel: "list_all2 (\<lambda>e (k, v). entry_key e = k \<and> (\<exists>j. StoreValue_try_from (clk j) (entry_value e) = Some (Inr v)))
       (filter (not_past n) (entries snap)) kvs"
    and d: "distinct (map fst kvs)" and get: "\<And>k. hm_get k (hashmap s) = map_of kvs k"
    and s: "s = from_parts (hm_collect kvs) (heap_of (hm_iter (hm_collect kvs)))"
    by (rule from_snapshot_Inr) blast
  have "t < instant_limit" if "map_of kvs k = Some v" "expiration_time v = Some t" for k v t
    using list_all2_lookup [OF rel that(1)] that(2) StoreValue_try_from_bound by blast
  moreover have "(t, k) \<in> set (expiration_heap s)" if "map_of kvs k = Some v" "expiration_time v = Some t" for k v t
    using that by (auto simp: s from_parts_def set_heap_of hm_collect_mem [OF d])
  ultimately show ?thesis
    by (auto simp: store_ok_def get) (simp_all add: s from_parts_def sorted_heap_of)
qed

section \<open>Deadlines across a restart\<close>

text \<open>
  One millisecond is $10^6$ ns. A deadline \<open>t\<close> is written at the instant \<open>m\<close>, when the Unix time is
  \<open>m + off\<close>, and read at \<open>m'\<close>, when it is \<open>m' + off'\<close>.
\<close>

definition written_millis :: "nat \<Rightarrow> nat \<Rightarrow> nat \<Rightarrow> nat" where
  "written_millis off m t = as_millis (t - m) + as_millis (m + off)"

lemma div_mult_bounds: "(a :: nat) div 10 ^ 6 * 10 ^ 6 \<le> a" "a < a div 10 ^ 6 * 10 ^ 6 + 10 ^ 6"
  using dividend_less_div_times [of "10 ^ 6" a] by simp_all

lemma written_millis_bounds:
  "t + off < written_millis off m t * 10 ^ 6 + 2 * 10 ^ 6"
  "written_millis off m t * 10 ^ 6 \<le> max t m + off"
  using div_mult_bounds [of "t - m"] div_mult_bounds [of "m + off"]
  by (auto simp: written_millis_def as_millis_def algebra_simps max_def)

lemma written_millis_u128:
  assumes "t < instant_limit" "m + off < 2 ^ 64 * 10 ^ 9"
  shows "u128_add (as_millis (t - m)) (as_millis (m + off)) = written_millis off m t"
proof -
  have "as_millis (t - m) < 2 ^ 127" "as_millis (m + off) < 2 ^ 127"
    using assms div_le_dividend [of "t - m" "10 ^ 6"] div_le_dividend [of "m + off" "10 ^ 6"]
    by (simp_all add: as_millis_def instant_limit_def)
  then show ?thesis by (simp add: u128_add_def written_millis_def)
qed

lemma read_deadline:
  assumes "expiration_try_from (as_millis (m' + off')) m' u = Inr e"
  shows "u * 10 ^ 6 \<le> e + off'" and "e + off' \<le> max (u * 10 ^ 6 + 10 ^ 6) (m' + off')"
proof -
  have e: "e = m' + (u - as_millis (m' + off')) * 10 ^ 6"
    using assms by (simp add: expiration_try_from_Inr)
  show "u * 10 ^ 6 \<le> e + off'" "e + off' \<le> max (u * 10 ^ 6 + 10 ^ 6) (m' + off')"
    using div_mult_bounds [of "m' + off'"] unfolding e as_millis_def
    by (cases "u \<le> (m' + off') div 10 ^ 6"; simp add: diff_mult_distrib max_def)+
qed

section \<open>Results of loading\<close>

lemma StoreValue_try_from_Inl:
  assumes "StoreValue_try_from c v = Some (Inl e)"
  shows "e = DurationOverflow \<and> (\<exists>t u. expiration_time_unix v = Some t \<and> unix_now_millis c = Some u \<and>
    (u64_max < t - u \<or> instant_limit \<le> mono c + (t - u) * 10 ^ 6))"
proof -
  obtain u where u: "unix_now_millis c = Some u"
    using assms by (auto simp: StoreValue_try_from_def)
  with assms obtain t where "expiration_time_unix v = Some t" "expiration_try_from u (mono c) t = Inl e"
    by (cases "expiration_time_unix v") (auto simp: StoreValue_try_from_def split: sum.splits)
  with u show ?thesis
    by (auto simp: expiration_try_from_def u64_try_from_def checked_add_def duration_from_millis_def Let_def
        split: if_splits)
qed

lemma collect_entries_total:
  assumes "\<forall>i. unix_now_millis (clk i) \<noteq> None"
  shows "(\<exists>kvs. collect_entries clk i es = Some (Inr kvs)) \<or>
    (collect_entries clk i es = Some (Inl DurationOverflow) \<and>
      (\<exists>e \<in> set es. \<exists>j. StoreValue_try_from (clk j) (entry_value e) = Some (Inl DurationOverflow)))"
proof (induction es arbitrary: i)
  case (Cons e es)
  obtain r where r: "StoreValue_try_from (clk i) (entry_value e) = Some r"
    using assms by (fastforce simp: StoreValue_try_from_def)
  show ?case
  proof (cases r)
    case (Inl err)
    with r StoreValue_try_from_Inl show ?thesis by fastforce
  next
    case (Inr v)
    with r Cons.IH [of "Suc i"] show ?thesis by auto
  qed
qed simp

text \<open>
  C26. Loading classifies every snapshot: it reports \<open>DuplicateKey\<close> exactly when two entries have
  the same key; \<open>DurationOverflow\<close> only for an entry that is not past and whose remaining time does
  not fit; otherwise it gives a store that satisfies the invariant, with its heap complete, whose
  keys are those of the entries that are not past.
\<close>

theorem from_snapshot_results:
  assumes "unix_now_millis now = Some n" and "\<forall>i. unix_now_millis (clk i) \<noteq> None"
  shows "case from_snapshot now clk snap of
      None \<Rightarrow> False
    | Some (Inl DuplicateKey) \<Rightarrow> \<not> distinct (map entry_key (entries snap))
    | Some (Inl DurationOverflow) \<Rightarrow> distinct (map entry_key (entries snap)) \<and>
        (\<exists>e \<in> set (entries snap). not_past n e \<and>
          (\<exists>t u j. expiration_time_unix (entry_value e) = Some t \<and> unix_now_millis (clk j) = Some u \<and>
            (u64_max < t - u \<or> instant_limit \<le> mono (clk j) + (t - u) * 10 ^ 6)))
    | Some (Inr s) \<Rightarrow> distinct (map entry_key (entries snap)) \<and> store_ok s \<and>
        (\<forall>k. hm_get k (hashmap s) \<noteq> None \<longleftrightarrow> (\<exists>e \<in> set (entries snap). not_past n e \<and> entry_key e = k))"
proof (cases "distinct (map entry_key (entries snap))")
  case False
  then show ?thesis using assms(1) by (simp add: from_snapshot_def unique_keys_distinct)
next
  case True
  let ?es = "filter (not_past n) (entries snap)"
  from collect_entries_total [OF assms(2), of 0 ?es] show ?thesis
  proof (elim disjE exE)
    fix kvs assume kvs: "collect_entries clk 0 ?es = Some (Inr kvs)"
    then obtain s where s: "from_snapshot now clk snap = Some (Inr s)"
      using assms(1) True by (simp add: from_snapshot_def unique_keys_distinct Let_def)
    then obtain kvs' n' where k': "unix_now_millis now = Some n'" "\<And>k. hm_get k (hashmap s) = map_of kvs' k"
      "list_all2 (\<lambda>e (k, v). entry_key e = k \<and> (\<exists>j. StoreValue_try_from (clk j) (entry_value e) = Some (Inr v)))
         (filter (not_past n') (entries snap)) kvs'"
      by (rule from_snapshot_Inr) blast
    then have "hm_get k (hashmap s) \<noteq> None \<longleftrightarrow> (\<exists>e \<in> set (entries snap). not_past n e \<and> entry_key e = k)" for k
      using list_all2_key_eq [OF k'(3)] assms(1)
      by (simp add: map_of_eq_None_iff flip: set_map) auto
    with True s from_snapshot_ok [OF s] show ?thesis by simp
  next
    assume overflow: "collect_entries clk 0 ?es = Some (Inl DurationOverflow) \<and>
      (\<exists>e \<in> set ?es. \<exists>j. StoreValue_try_from (clk j) (entry_value e) = Some (Inl DurationOverflow))"
    then obtain e j where e: "e \<in> set (entries snap)" "not_past n e"
      "StoreValue_try_from (clk j) (entry_value e) = Some (Inl DurationOverflow)" by auto
    with StoreValue_try_from_Inl [OF e(3)] overflow True assms(1) show ?thesis
      by (simp add: from_snapshot_def unique_keys_distinct) blast
  qed
qed

theorem from_snapshot_results_witness:
  "from_snapshot \<lparr>sys_time = Some (5 * 10 ^ 6), mono = 0\<rparr> (\<lambda>_. \<lparr>sys_time = Some (5 * 10 ^ 6), mono = 0\<rparr>)
     \<lparr>entries = [\<lparr>entry_key = ''k'', entry_value = \<lparr>snapshot_bytes = ''a'', expiration_time_unix = None\<rparr>\<rparr>,
                  \<lparr>entry_key = ''k'', entry_value = \<lparr>snapshot_bytes = ''b'', expiration_time_unix = None\<rparr>\<rparr>]\<rparr> =
     Some (Inl DuplicateKey) \<and>
   (\<exists>s. from_snapshot \<lparr>sys_time = Some (5 * 10 ^ 6), mono = 0\<rparr> (\<lambda>_. \<lparr>sys_time = Some (5 * 10 ^ 6), mono = 0\<rparr>)
     \<lparr>entries = [\<lparr>entry_key = ''old'', entry_value = \<lparr>snapshot_bytes = ''a'', expiration_time_unix = Some 4\<rparr>\<rparr>,
                  \<lparr>entry_key = ''new'', entry_value = \<lparr>snapshot_bytes = ''b'', expiration_time_unix = Some 9\<rparr>\<rparr>]\<rparr> =
     Some (Inr s) \<and> store_ok s \<and> hm_get ''new'' (hashmap s) \<noteq> None \<and> hm_get ''old'' (hashmap s) = None)"
proof -
  let ?c = "\<lparr>sys_time = Some (5 * 10 ^ 6), mono = 0\<rparr>"
  let ?dup = "\<lparr>entries = [\<lparr>entry_key = ''k'', entry_value = \<lparr>snapshot_bytes = ''a'', expiration_time_unix = None\<rparr>\<rparr>,
    \<lparr>entry_key = ''k'', entry_value = \<lparr>snapshot_bytes = ''b'', expiration_time_unix = None\<rparr>\<rparr>]\<rparr>"
  let ?good = "\<lparr>entries = [\<lparr>entry_key = ''old'', entry_value = \<lparr>snapshot_bytes = ''a'', expiration_time_unix = Some 4\<rparr>\<rparr>,
    \<lparr>entry_key = ''new'', entry_value = \<lparr>snapshot_bytes = ''b'', expiration_time_unix = Some 9\<rparr>\<rparr>]\<rparr>"
  have clock: "unix_now_millis ?c = Some 5" by (simp add: unix_now_millis_def as_millis_def)
  note results = from_snapshot_results [of ?c 5 "\<lambda>_. ?c", OF clock]
  have "from_snapshot ?c (\<lambda>_. ?c) ?dup = Some (Inl DuplicateKey)"
  proof (cases "from_snapshot ?c (\<lambda>_. ?c) ?dup")
    case (Some r)
    with results [of ?dup] clock show ?thesis
      by (cases r; cases "projl r") simp_all
  qed (use results [of ?dup] clock in simp)
  moreover have "\<exists>s. from_snapshot ?c (\<lambda>_. ?c) ?good = Some (Inr s) \<and> store_ok s \<and>
      hm_get ''new'' (hashmap s) \<noteq> None \<and> hm_get ''old'' (hashmap s) = None"
  proof (cases "from_snapshot ?c (\<lambda>_. ?c) ?good")
    case (Some r)
    note res = results [of ?good, simplified clock Some, simplified]
    show ?thesis
    proof (cases r)
      case (Inl e)
      with res show ?thesis by (cases e) (auto simp: not_past_def u64_max_def instant_limit_def)
    next
      case (Inr s)
      with results [of ?good] clock Some have ok: "store_ok s"
        and keys: "\<And>k. hm_get k (hashmap s) \<noteq> None \<longleftrightarrow>
          (\<exists>e \<in> set (entries ?good). not_past 5 e \<and> entry_key e = k)"
        by (simp_all del: not_None_eq)
      have "hm_get ''new'' (hashmap s) \<noteq> None" "\<not> hm_get ''old'' (hashmap s) \<noteq> None"
        unfolding keys by (simp_all add: not_past_def)
      with ok Some Inr show ?thesis by (intro exI [of _ s]) simp
    qed
  qed (use results [of ?good] clock in simp)
  ultimately show ?thesis by blast
qed

section \<open>Dump and restore\<close>

definition clocks_in_step :: "nat \<Rightarrow> Instant \<Rightarrow> Instant \<Rightarrow> (nat \<Rightarrow> Clock) \<Rightarrow> bool" where
  "clocks_in_step off lo hi clk \<longleftrightarrow> hi + off < 2 ^ 64 * 10 ^ 9 \<and>
     (\<forall>i. lo \<le> mono (clk i) \<and> mono (clk i) \<le> hi \<and> sys_time (clk i) = Some (mono (clk i) + off))"

lemma clocks_in_stepD:
  assumes "clocks_in_step off lo hi clk"
  shows "lo \<le> mono (clk i)" "mono (clk i) \<le> hi" "unix_now_millis (clk i) = Some (as_millis (mono (clk i) + off))"
    "mono (clk i) + off < 2 ^ 64 * 10 ^ 9"
proof -
  have "mono (clk i) \<le> hi" "hi + off < 2 ^ 64 * 10 ^ 9" using assms by (simp_all add: clocks_in_step_def)
  then show "mono (clk i) + off < 2 ^ 64 * 10 ^ 9" by linarith
qed (use assms in \<open>simp_all add: clocks_in_step_def unix_now_millis_def\<close>)

text \<open>The entry a live key gets.\<close>

lemma live_entry:
  assumes "hm_get k (hashmap s) = Some w" "\<not> is_expired w now"
  shows "live s now k = Some (stored_value w, expiration_time w)"
  using assms by (simp add: live_def)

lemma SnapshotValue_from_ref_Some:
  "SnapshotValue_from_ref c v = Some sv \<Longrightarrow> unix_now_millis c = Some u \<Longrightarrow>
     snapshot_bytes sv = stored_value v \<and> expiration_time_unix sv =
       map_option (\<lambda>t. u128_add (as_millis (t - mono c)) u) (expiration_time v)"
  by (auto simp: SnapshotValue_from_ref_def duration_since_def)

lemma written_entry:
  assumes "store_ok s" "clocks_in_step off now hi clk" "hm_get k (hashmap s) = Some w" "\<not> is_expired w now"
    and "SnapshotValue_from_ref (clk j) w = Some sv"
  shows "\<exists>v t. live s now k = Some (v, t) \<and> snapshot_bytes sv = v \<and>
    (case t of None \<Rightarrow> expiration_time_unix sv = None
     | Some t \<Rightarrow> \<exists>m. now \<le> m \<and> m \<le> hi \<and> expiration_time_unix sv = Some (written_millis off m t))"
proof -
  note clk = clocks_in_stepD [OF assms(2), of j]
  show ?thesis
  proof (cases "expiration_time w")
    case None
    then show ?thesis using live_entry [OF assms(3,4)] SnapshotValue_from_ref_Some [OF assms(5) clk(3)] by simp
  next
    case (Some t)
    then have "t < instant_limit" using assms(1,3) by (auto simp: store_ok_def)
    from Some SnapshotValue_from_ref_Some [OF assms(5) clk(3)] written_millis_u128 [OF this clk(4)]
    have "snapshot_bytes sv = stored_value w" "expiration_time_unix sv = Some (written_millis off (mono (clk j)) t)"
      by simp_all
    with live_entry [OF assms(3,4)] Some clk(1,2) show ?thesis by auto
  qed
qed

lemma to_snapshot_entries:
  assumes "store_ok s" "clocks_in_step off now hi clk" "to_snapshot s now clk = Some snap"
  shows "distinct (map entry_key (entries snap))"
    and "entry_key ` set (entries snap) = {k. live s now k \<noteq> None}"
    and "e \<in> set (entries snap) \<Longrightarrow> \<exists>v t. live s now (entry_key e) = Some (v, t) \<and>
      snapshot_bytes (entry_value e) = v \<and>
      (case t of None \<Rightarrow> expiration_time_unix (entry_value e) = None
       | Some t \<Rightarrow> \<exists>m. now \<le> m \<and> m \<le> hi \<and> expiration_time_unix (entry_value e) = Some (written_millis off m t))"
proof -
  let ?kvs = "filter (\<lambda>(_, v). \<not> is_expired v now) (hm_iter (hashmap s))"
  have invar: "hm_invar (hashmap s)" using assms(1) by simp
  have rel: "list_all2 (\<lambda>(k, v) e. entry_key e = k \<and> (\<exists>j. SnapshotValue_from_ref (clk j) v = Some (entry_value e)))
      ?kvs (entries snap)"
    using assms(3) snapshot_entries_rel by (fastforce simp: to_snapshot_def)
  note keys = list_all2_fst_eq [OF rel, symmetric]
  show "distinct (map entry_key (entries snap))"
    unfolding keys using hm.iter_distinct [OF invar] by (rule distinct_map_filter)
  have "entry_key ` set (entries snap) = fst ` set ?kvs"
    using keys by (metis list.set_map)
  also have "\<dots> = {k. live s now k \<noteq> None}"
  proof -
    have "k \<in> fst ` set ?kvs \<longleftrightarrow> (\<exists>v. hm_get k (hashmap s) = Some v \<and> \<not> is_expired v now)" for k
      using hm.iter_mem [OF invar, of k] by force
    then show ?thesis by (auto simp: live_def split: option.splits)
  qed
  finally show "entry_key ` set (entries snap) = {k. live s now k \<noteq> None}" .
  show "\<exists>v t. live s now (entry_key e) = Some (v, t) \<and>
      snapshot_bytes (entry_value e) = v \<and>
      (case t of None \<Rightarrow> expiration_time_unix (entry_value e) = None
       | Some t \<Rightarrow> \<exists>m. now \<le> m \<and> m \<le> hi \<and> expiration_time_unix (entry_value e) = Some (written_millis off m t))"
    if mem: "e \<in> set (entries snap)"
  proof -
    obtain w j where w: "(entry_key e, w) \<in> set ?kvs" "SnapshotValue_from_ref (clk j) w = Some (entry_value e)"
      using list_all2_right [OF rel mem] by auto
    then have g: "hm_get (entry_key e) (hashmap s) = Some w" "\<not> is_expired w now"
      using hm.iter_mem [OF invar] by auto
    from written_entry [OF assms(1,2) g w(2)] show ?thesis .
  qed
qed

text \<open>Loading a snapshot just taken, entry by entry.\<close>

lemma loaded_entry:
  assumes "from_snapshot now clk snap = Some (Inr s)" "unix_now_millis now = Some n"
    and "e \<in> set (entries snap)"
  shows "if not_past n e
    then \<exists>w j. hm_get (entry_key e) (hashmap s) = Some w \<and> StoreValue_try_from (clk j) (entry_value e) = Some (Inr w)
    else hm_get (entry_key e) (hashmap s) = None"
proof -
  from assms(1) obtain kvs where d: "distinct (map entry_key (entries snap))"
    and rel: "list_all2 (\<lambda>e (k, v). entry_key e = k \<and> (\<exists>j. StoreValue_try_from (clk j) (entry_value e) = Some (Inr v)))
       (filter (not_past n) (entries snap)) kvs" and get: "\<And>k. hm_get k (hashmap s) = map_of kvs k"
    by (rule from_snapshot_Inr) (use assms(2) in auto)
  have other: "e' = e" if "e' \<in> set (entries snap)" "entry_key e' = entry_key e" for e'
    using d assms(3) that by (auto simp: distinct_map inj_on_def)
  show ?thesis
  proof (cases "map_of kvs (entry_key e)")
    case None
    then have "entry_key e \<notin> entry_key ` set (filter (not_past n) (entries snap))"
      using list_all2_key_eq [OF rel] by (metis list.set_map map_of_eq_None_iff)
    with None get assms(3) show ?thesis by auto
  next
    case (Some w)
    with list_all2_lookup [OF rel Some] get other show ?thesis by (auto split: if_splits)
  qed
qed

lemma loaded_no_entry:
  assumes "from_snapshot now clk snap = Some (Inr s)" "k \<notin> entry_key ` set (entries snap)"
  shows "hm_get k (hashmap s) = None"
proof -
  from assms(1) obtain kvs n where
    rel: "list_all2 (\<lambda>e (k, v). entry_key e = k \<and> (\<exists>j. StoreValue_try_from (clk j) (entry_value e) = Some (Inr v)))
       (filter (not_past n) (entries snap)) kvs" and get: "\<And>k. hm_get k (hashmap s) = map_of kvs k"
    by (rule from_snapshot_Inr) blast
  have "k \<notin> fst ` set kvs" using list_all2_key_eq [OF rel] assms(2) by (metis filter_is_subset image_mono list.set_map subsetD)
  with get show ?thesis by (simp add: map_of_eq_None_iff)
qed

text \<open>A restored value and the value it comes from, in wall-clock time.\<close>

definition restored :: "nat \<Rightarrow> nat \<Rightarrow> Instant \<Rightarrow> Instant \<Rightarrow> Instant \<Rightarrow> bytes \<times> Instant option \<Rightarrow> StoreValue option \<Rightarrow> bool" where
  "restored off off' dump_end start finish = (\<lambda>(v, x) r.
     case (x, r) of
       (None, Some w) \<Rightarrow> w = \<lparr>stored_value = v, expiration_time = None\<rparr>
     | (None, None) \<Rightarrow> False
     | (Some t, None) \<Rightarrow> t + off < start + off' + 2 * 10 ^ 6
     | (Some t, Some w) \<Rightarrow> stored_value w = v \<and>
         (\<exists>e. expiration_time w = Some e \<and> t + off < e + off' + 2 * 10 ^ 6 \<and>
            e + off' \<le> max (max t dump_end + off + 10 ^ 6) (finish + off')))"

lemma restored_deadline:
  assumes "now \<le> m" "m \<le> dump_end" and "clocks_in_step off' start finish clk"
    and "expiration_try_from (as_millis (mono (clk j) + off')) (mono (clk j)) (written_millis off m t) = Inr e"
  shows "t + off < e + off' + 2 * 10 ^ 6 \<and> e + off' \<le> max (max t dump_end + off + 10 ^ 6) (finish + off')"
  using read_deadline [OF assms(4)] written_millis_bounds [where t = t and off = off and m = m]
    clocks_in_stepD(2) [OF assms(3), of j] assms(2)
  by (auto simp: max_def split: if_splits)

text \<open>An entry with a deadline is restored with it, or was left out because it had passed.\<close>

lemma restored_entry:
  assumes "clocks_in_step off' start finish clk'" "now \<le> m" "m \<le> dump_end"
    and "from_snapshot \<lparr>sys_time = Some (start + off'), mono = start\<rparr> clk' snap = Some (Inr s')"
    and "e \<in> set (entries snap)" "snapshot_bytes (entry_value e) = v"
    and "expiration_time_unix (entry_value e) = Some (written_millis off m t)"
  shows "restored off off' dump_end start finish (v, Some t) (hm_get (entry_key e) (hashmap s'))"
proof -
  let ?n = "as_millis (start + off')"
  have n: "unix_now_millis \<lparr>sys_time = Some (start + off'), mono = start\<rparr> = Some ?n"
    by (simp add: unix_now_millis_def)
  note load = loaded_entry [OF assms(4) n assms(5)] and clk = clocks_in_stepD(3) [OF assms(1)]
  show ?thesis
  proof (cases "not_past ?n e")
    case True
    with load obtain w j where w: "hm_get (entry_key e) (hashmap s') = Some w"
      "StoreValue_try_from (clk' j) (entry_value e) = Some (Inr w)" by auto
    then obtain d where "stored_value w = v" "expiration_time w = Some d"
      "expiration_try_from (as_millis (mono (clk' j) + off')) (mono (clk' j)) (written_millis off m t) = Inr d"
      using assms(6,7) clk [of j] by (auto simp: StoreValue_try_from_Inr)
    with restored_deadline [OF assms(2,3,1) this(3)] w(1) show ?thesis
      unfolding restored_def by simp
  next
    case False
    then have "written_millis off m t * 10 ^ 6 \<le> start + off'"
      using assms(7) div_mult_bounds(1) [of "start + off'"] by (auto simp: not_past_def as_millis_def)
    with False load written_millis_bounds(1) [of t off m] show ?thesis
      by (simp add: restored_def)
  qed
qed

lemma snapshot_round_trip:
  assumes "store_ok s" "clocks_in_step off now dump_end clk" "clocks_in_step off' start finish clk'"
    and "to_snapshot s now clk = Some snap"
    and "from_snapshot \<lparr>sys_time = Some (start + off'), mono = start\<rparr> clk' snap = Some (Inr s')"
  shows "case live s now k of None \<Rightarrow> hm_get k (hashmap s') = None
    | Some vx \<Rightarrow> restored off off' dump_end start finish vx (hm_get k (hashmap s'))"
proof (cases "live s now k")
  case None
  then show ?thesis using loaded_no_entry [OF assms(5)] to_snapshot_entries(2) [OF assms(1,2,4)] by auto
next
  case (Some vx)
  then have "k \<in> entry_key ` set (entries snap)"
    using to_snapshot_entries(2) [OF assms(1,2,4)] by simp
  then obtain e where e: "e \<in> set (entries snap)" "entry_key e = k" by blast
  let ?n = "as_millis (start + off')"
  have n: "unix_now_millis \<lparr>sys_time = Some (start + off'), mono = start\<rparr> = Some ?n"
    by (simp add: unix_now_millis_def)
  note load = loaded_entry [OF assms(5) n e(1)] and clk = clocks_in_stepD(3) [OF assms(3)]
  from to_snapshot_entries(3) [OF assms(1,2,4) e(1)] e(2) Some
  obtain v x where vx: "vx = (v, x)" "snapshot_bytes (entry_value e) = v"
    and x: "case x of None \<Rightarrow> expiration_time_unix (entry_value e) = None
       | Some t \<Rightarrow> \<exists>m. now \<le> m \<and> m \<le> dump_end \<and> expiration_time_unix (entry_value e) = Some (written_millis off m t)"
    by auto
  have "restored off off' dump_end start finish vx (hm_get k (hashmap s'))"
  proof (cases x)
    case None
    with x load e(2) vx clk show ?thesis
      by (auto simp: restored_def not_past_def StoreValue_try_from_Inr)
  next
    case (Some t)
    with x obtain m where m: "now \<le> m" "m \<le> dump_end"
      "expiration_time_unix (entry_value e) = Some (written_millis off m t)" by auto
    from restored_entry [OF assms(3) m(1,2) assms(5) e(1) vx(2) m(3)] Some vx(1) e(2) show ?thesis by simp
  qed
  with Some show ?thesis by simp
qed

lemma clocks_readable: "clocks_in_step off lo hi clk \<Longrightarrow> \<forall>i. unix_now_millis (clk i) \<noteq> None"
  by (simp add: clocks_in_stepD(3))

lemma written_millis_small:
  assumes "m \<le> dump_end" "t + off < 2 ^ 64 * 10 ^ 6" "dump_end + off < 2 ^ 64 * 10 ^ 6"
  shows "written_millis off m t < 2 ^ 64"
proof -
  have "written_millis off m t * 10 ^ 6 < 2 ^ 64 * 10 ^ 6"
    using written_millis_bounds(2) [where t = t and off = off and m = m] assms by (simp add: max_def split: if_splits)
  then show ?thesis by (simp only: mult_less_cancel2)
qed

lemma small_deadlines_load:
  assumes "store_ok s" "clocks_in_step off now dump_end clk" "clocks_in_step off' start finish clk'"
    and "to_snapshot s now clk = Some snap" and "finish < 2 ^ 62 * 10 ^ 9" and "dump_end + off < 2 ^ 64 * 10 ^ 6"
    and "\<forall>k v t. live s now k = Some (v, Some t) \<longrightarrow> t + off < 2 ^ 64 * 10 ^ 6"
  shows "\<exists>s'. from_snapshot \<lparr>sys_time = Some (start + off'), mono = start\<rparr> clk' snap = Some (Inr s')"
proof -
  let ?n = "as_millis (start + off')"
  have fits: "StoreValue_try_from (clk' j) (entry_value e) \<noteq> Some (Inl DurationOverflow)"
    if e: "e \<in> set (entries snap)" for e j
  proof
    assume "StoreValue_try_from (clk' j) (entry_value e) = Some (Inl DurationOverflow)"
    with StoreValue_try_from_Inl obtain u d where d: "expiration_time_unix (entry_value e) = Some d"
      "u64_max < d - u \<or> instant_limit \<le> mono (clk' j) + (d - u) * 10 ^ 6" by blast
    with to_snapshot_entries(3) [OF assms(1,2,4) e] obtain v t m where
      "live s now (entry_key e) = Some (v, Some t)" "m \<le> dump_end" "d = written_millis off m t"
      by (auto split: option.splits)
    with written_millis_small [of m dump_end t off] assms(6,7) have small: "d < 2 ^ 64" by blast
    then have "(d - u) * 10 ^ 6 < 2 ^ 64 * 10 ^ 6" by simp
    with clocks_in_stepD(2) [OF assms(3), of j] assms(5)
    have "mono (clk' j) + (d - u) * 10 ^ 6 < instant_limit" by (simp add: instant_limit_def)
    with d(2) small show False by (simp add: u64_max_def)
  qed
  have "\<exists>kvs. collect_entries clk' 0 (filter (not_past ?n) (entries snap)) = Some (Inr kvs)"
    using collect_entries_total [OF clocks_readable [OF assms(3)], of 0 "filter (not_past ?n) (entries snap)"] fits
    by auto
  then show ?thesis
    using to_snapshot_entries(1) [OF assms(1,2,4)]
    by (auto simp: from_snapshot_def unix_now_millis_def unique_keys_distinct Let_def)
qed

text \<open>
  C27. A store survives \<open>dump\<close> and \<open>restore\<close>: with a serializer that reads back what it wrote and
  two clocks that run in step during the dump and, with another offset, during the restore (the
  monotonic clock may have restarted in between), and with deadlines that fit 64-bit
  milliseconds, the restore succeeds; a key has a value afterwards exactly as it had before, a
  value without a deadline is kept unchanged, and a deadline moves by less than 2 ms down and
  1 ms up in wall-clock time (or to the end of the dump or of the restore, if it passes meanwhile).
  A key is dropped only if less than 2 ms were left.
\<close>

theorem dump_restore:
  assumes "snapshot_codec to_vec from_slice"
    and "store_ok s" and "clocks_in_step off now dump_end clk" and "clocks_in_step off' start finish clk'"
    and "dump to_vec s now clk = Some (Inr bytes)"
    and "finish < 2 ^ 62 * 10 ^ 9" and "dump_end + off < 2 ^ 64 * 10 ^ 6"
    and "\<forall>k v t. live s now k = Some (v, Some t) \<longrightarrow> t + off < 2 ^ 64 * 10 ^ 6"
  shows "\<exists>s'. restore from_slice \<lparr>sys_time = Some (start + off'), mono = start\<rparr> clk' bytes = Some (Inr s') \<and>
    store_ok s' \<and>
    (\<forall>k. case live s now k of None \<Rightarrow> hm_get k (hashmap s') = None
       | Some vx \<Rightarrow> restored off off' dump_end start finish vx (hm_get k (hashmap s')))"
proof -
  from snapshot_codec.restore_dump [OF assms(1,5)]
  obtain snap where snap: "to_snapshot s now clk = Some snap" "from_slice bytes = Inr snap" by blast
  obtain s' where s': "from_snapshot \<lparr>sys_time = Some (start + off'), mono = start\<rparr> clk' snap = Some (Inr s')"
    using small_deadlines_load [OF assms(2-4) snap(1) assms(6-8)] by blast
  with snap from_snapshot_ok [OF s'] snapshot_round_trip [OF assms(2-4) snap(1) s'] show ?thesis
    by (simp add: restore_def)
qed

theorem dump_restore_witness:
  "\<exists>s'. restore (\<lambda>_. Inr \<lparr>entries = [\<lparr>entry_key = ''k'',
         entry_value = \<lparr>snapshot_bytes = ''v'', expiration_time_unix = Some 5000\<rparr>\<rparr>]\<rparr>)
       \<lparr>sys_time = Some (10 ^ 9 + 0), mono = 10 ^ 9\<rparr> (\<lambda>_. \<lparr>sys_time = Some (10 ^ 9), mono = 10 ^ 9\<rparr>) ''x'' = Some (Inr s' :: unit RestoreError + Store) \<and>
     restored 0 0 0 (10 ^ 9) (10 ^ 9) (''v'', Some (5 * 10 ^ 9)) (hm_get ''k'' (hashmap s'))"
proof -
  let ?s = "from_parts [(''k'', \<lparr>stored_value = ''v'', expiration_time = Some (5 * 10 ^ 9)\<rparr>)] [(5 * 10 ^ 9, ''k'')]"
  let ?snap = "\<lparr>entries = [\<lparr>entry_key = ''k'', entry_value = \<lparr>snapshot_bytes = ''v'', expiration_time_unix = Some 5000\<rparr>\<rparr>]\<rparr>"
  let ?to = "\<lambda>snap. if snap = ?snap then Inr ''x'' else Inl ()"
  have get: "hm_get k (hashmap ?s) = (if k = ''k'' then Some \<lparr>stored_value = ''v'', expiration_time = Some (5 * 10 ^ 9)\<rparr> else None)" for k
    by (simp add: from_parts_def hm_get_def)
  have ok: "store_ok ?s"
    unfolding store_ok_def get by (simp add: from_parts_def hm_invar_def instant_limit_def)
  have dump: "dump ?to ?s 0 (\<lambda>_. \<lparr>sys_time = Some 0, mono = 0\<rparr>) = Some (Inr ''x'')"
    by (simp add: dump_def to_snapshot_def from_parts_def hm_iter_def is_expired_def SnapshotValue_from_ref_def
        unix_now_millis_def as_millis_def duration_since_def u128_add_def)
  have live: "live ?s 0 k = (if k = ''k'' then Some (''v'', Some (5 * 10 ^ 9)) else None)" for k
    unfolding live_def get by (simp add: is_expired_def)
  let ?clk = "\<lambda>_ :: nat. \<lparr>sys_time = Some (10 ^ 9), mono = 10 ^ 9\<rparr>"
  have law: "snapshot_codec ?to (\<lambda>_. Inr ?snap)" by unfold_locales (auto split: if_splits)
  have clocks: "clocks_in_step 0 0 0 (\<lambda>_. \<lparr>sys_time = Some 0, mono = 0\<rparr>)" "clocks_in_step 0 (10 ^ 9) (10 ^ 9) ?clk"
    by (simp_all add: clocks_in_step_def)
  have bounds: "(10 :: nat) ^ 9 < 2 ^ 62 * 10 ^ 9" "(0 :: nat) + 0 < 2 ^ 64 * 10 ^ 6" by simp_all
  have small: "\<forall>k v t. live ?s 0 k = Some (v, Some t) \<longrightarrow> t + 0 < 2 ^ 64 * 10 ^ 6"
    unfolding live by simp
  obtain s' where s': "restore (\<lambda>_. Inr ?snap) \<lparr>sys_time = Some (10 ^ 9 + 0), mono = 10 ^ 9\<rparr> ?clk ''x'' =
      Some (Inr s' :: unit RestoreError + Store)"
    and keys: "\<And>k. case live ?s 0 k of None \<Rightarrow> hm_get k (hashmap s') = None
       | Some vx \<Rightarrow> restored 0 0 0 (10 ^ 9) (10 ^ 9) vx (hm_get k (hashmap s'))"
    using dump_restore [OF law ok clocks dump bounds small] by blast
  have "live ?s 0 ''k'' = Some (''v'', Some (5 * 10 ^ 9))" unfolding live by simp
  with keys [of "''k''"] have "restored 0 0 0 (10 ^ 9) (10 ^ 9) (''v'', Some (5 * 10 ^ 9)) (hm_get ''k'' (hashmap s'))"
    by (simp only: option.case)
  with s' show ?thesis by blast
qed

text \<open>
  C28. A deadline too far away makes the dump unusable: \<open>EXPIRE\<close> accepts every number of seconds up
  to the limit of \<open>Instant\<close>, and \<open>dump\<close> writes the deadline, but if it is $2^{64} + 2$ ms or more after
  the restore, the restore of the whole store fails with \<open>DurationOverflow\<close>, all other keys included.
\<close>

theorem far_deadline_unrestorable:
  assumes "snapshot_codec to_vec from_slice"
    and "store_ok s" and "clocks_in_step off now dump_end clk" and "clocks_in_step off' start finish clk'"
    and "dump to_vec s now clk = Some (Inr bytes)"
    and "live s now k = Some (v, Some t)" and "finish + off' + (2 ^ 64 + 2) * 10 ^ 6 \<le> t + off"
    and "start \<le> finish"
  shows "restore from_slice \<lparr>sys_time = Some (start + off'), mono = start\<rparr> clk' bytes =
    Some (Inl (InvalidData DurationOverflow))"
proof -
  let ?now = "\<lparr>sys_time = Some (start + off'), mono = start\<rparr>"
  from snapshot_codec.restore_dump [OF assms(1,5)]
  obtain snap where snap: "to_snapshot s now clk = Some snap" "from_slice bytes = Inr snap" by blast
  have "k \<in> entry_key ` set (entries snap)"
    using to_snapshot_entries(2) [OF assms(2,3) snap(1)] assms(6) by simp
  then obtain e where e: "e \<in> set (entries snap)" "entry_key e = k" by blast
  with to_snapshot_entries(3) [OF assms(2,3) snap(1) e(1)] assms(6) obtain m where
    m: "expiration_time_unix (entry_value e) = Some (written_millis off m t)" by auto
  let ?n = "as_millis (start + off')" and ?u = "written_millis off m t"
  have far: "as_millis (r + off') + 2 ^ 64 < ?u" if "r \<le> finish" for r
  proof -
    have "as_millis (r + off') * 10 ^ 6 + 2 ^ 64 * 10 ^ 6 < ?u * 10 ^ 6"
      using div_mult_bounds(1) [of "r + off'"] written_millis_bounds(1) [where t = t and off = off and m = m]
        assms(7) [unfolded add_mult_distrib] that unfolding as_millis_def by linarith
    then show ?thesis by (simp only: mult_less_cancel2 flip: add_mult_distrib)
  qed
  have "not_past ?n e" using far [OF assms(8)] m by (simp add: not_past_def)
  have "\<nexists>s'. from_snapshot ?now clk' snap = Some (Inr s')"
  proof
    assume "\<exists>s'. from_snapshot ?now clk' snap = Some (Inr s')"
    then obtain s' where s': "from_snapshot ?now clk' snap = Some (Inr s')" ..
    have "unix_now_millis ?now = Some ?n" by (simp add: unix_now_millis_def)
    from loaded_entry [OF s' this e(1)] \<open>not_past ?n e\<close>
    obtain w j where "StoreValue_try_from (clk' j) (entry_value e) = Some (Inr w)" by auto
    with m clocks_in_stepD(3) [OF assms(4), of j]
    have "?u - as_millis (mono (clk' j) + off') \<le> u64_max"
      by (auto simp: StoreValue_try_from_Inr expiration_try_from_Inr)
    with far [OF clocks_in_stepD(2) [OF assms(4), of j]] show False by (simp add: u64_max_def)
  qed
  with collect_entries_total [OF clocks_readable [OF assms(4)], of 0 "filter (not_past ?n) (entries snap)"]
    to_snapshot_entries(1) [OF assms(2,3) snap(1)] snap(2)
  show ?thesis
    by (auto simp: restore_def from_snapshot_def unix_now_millis_def unique_keys_distinct Let_def
        RestoreError_from_SnapshotError_def)
qed

theorem far_deadline_unrestorable_witness:
  "restore (\<lambda>_. Inr \<lparr>entries = [\<lparr>entry_key = ''k'',
         entry_value = \<lparr>snapshot_bytes = ''v'', expiration_time_unix = Some (2 ^ 65)\<rparr>\<rparr>]\<rparr>)
     \<lparr>sys_time = Some (10 ^ 9 + 0), mono = 10 ^ 9\<rparr> (\<lambda>_. \<lparr>sys_time = Some (10 ^ 9), mono = 10 ^ 9\<rparr>) ''x'' =
   Some (Inl (InvalidData DurationOverflow) :: unit RestoreError + Store)"
proof -
  let ?s = "from_parts [(''k'', \<lparr>stored_value = ''v'', expiration_time = Some (2 ^ 65 * 10 ^ 6)\<rparr>)] [(2 ^ 65 * 10 ^ 6, ''k'')]"
  let ?snap = "\<lparr>entries = [\<lparr>entry_key = ''k'', entry_value = \<lparr>snapshot_bytes = ''v'', expiration_time_unix = Some (2 ^ 65)\<rparr>\<rparr>]\<rparr>"
  let ?to = "\<lambda>snap. if snap = ?snap then Inr ''x'' else Inl ()"
  let ?clk = "\<lambda>_ :: nat. \<lparr>sys_time = Some (10 ^ 9), mono = 10 ^ 9\<rparr>"
  have get: "hm_get k (hashmap ?s) = (if k = ''k'' then Some \<lparr>stored_value = ''v'', expiration_time = Some (2 ^ 65 * 10 ^ 6)\<rparr> else None)" for k
    by (simp add: from_parts_def hm_get_def)
  have ok: "store_ok ?s"
    unfolding store_ok_def get by (simp add: from_parts_def hm_invar_def instant_limit_def)
  have dump: "dump ?to ?s 0 (\<lambda>_. \<lparr>sys_time = Some 0, mono = 0\<rparr>) = Some (Inr ''x'')"
    by (simp add: dump_def to_snapshot_def from_parts_def hm_iter_def is_expired_def SnapshotValue_from_ref_def
        unix_now_millis_def as_millis_def duration_since_def u128_add_def)
  have live: "live ?s 0 ''k'' = Some (''v'', Some (2 ^ 65 * 10 ^ 6))"
    unfolding live_def get by (simp add: is_expired_def)
  have law: "snapshot_codec ?to (\<lambda>_. Inr ?snap)" by unfold_locales (auto split: if_splits)
  have clocks: "clocks_in_step 0 0 0 (\<lambda>_. \<lparr>sys_time = Some 0, mono = 0\<rparr>)" "clocks_in_step 0 (10 ^ 9) (10 ^ 9) ?clk"
    by (simp_all add: clocks_in_step_def)
  have far: "(10 :: nat) ^ 9 + 0 + (2 ^ 64 + 2) * 10 ^ 6 \<le> 2 ^ 65 * 10 ^ 6 + 0" by simp
  show ?thesis by (rule far_deadline_unrestorable [OF law ok clocks dump live far order_refl])
qed

end
