(* ===== verification/Snapshot_Json.thy ===== *)
theory Snapshot_Json
  imports Snapshots "HOL-Library.Monad_Syntax"
begin

text \<open>
  A serializer for snapshots. The theorems on \<open>dump\<close>, \<open>restore\<close> and the archive take the serializer of the
  crate \<open>serde_json\<close> as a parameter that reads back what it wrote, the locale \<open>snapshot_codec\<close> of theory
  \<open>Snapshots\<close>. This theory shows that the format of the archive files, as the tests of the repository spell
  it out, has this property: it prints a snapshot in that format, reads it strictly (no other fields, no
  missing fields, nothing after the document), and interprets the locale with the two.
\<close>

section \<open>Printing\<close>

definition json_field :: "string \<Rightarrow> string \<Rightarrow> string" where
  "json_field name v = CHR 0x22 # name @ [CHR 0x22, CHR '':''] @ v"

definition json_list :: "('a \<Rightarrow> string) \<Rightarrow> 'a list \<Rightarrow> string" where
  "json_list print xs = CHR ''['' # join_with '','' (map print xs) @ '']''"

definition json_byte :: "u8 \<Rightarrow> string" where
  "json_byte b = nat_to_string (of_char b)"

definition json_deadline :: "nat option \<Rightarrow> string" where
  "json_deadline x = (case x of None \<Rightarrow> ''null'' | Some n \<Rightarrow> nat_to_string n)"

definition json_value :: "SnapshotValue \<Rightarrow> string" where
  "json_value v = CHR ''{'' # json_field ''value'' (json_list json_byte (snapshot_bytes v)) @ CHR '','' #
     json_field ''expiration_time_unix'' (json_deadline (expiration_time_unix v)) @ ''}''"

definition json_entry :: "SnapshotEntry \<Rightarrow> string" where
  "json_entry e = CHR ''{'' # json_field ''key'' (json_list json_byte (entry_key e)) @ CHR '','' #
     json_field ''value'' (json_value (entry_value e)) @ ''}''"

definition json_snapshot :: "Snapshot \<Rightarrow> string" where
  "json_snapshot s = CHR ''{'' # json_field ''entries'' (json_list json_entry (entries s)) @ ''}''"

definition json_to_vec :: "Snapshot \<Rightarrow> string + bytes" where
  "json_to_vec s = Inr (json_snapshot s)"

section \<open>Reading\<close>

type_synonym 'a reader = "string \<Rightarrow> ('a \<times> string) option"

fun literal :: "string \<Rightarrow> string \<Rightarrow> string option" where
  "literal [] s = Some s"
| "literal (c # cs) [] = None"
| "literal (c # cs) (x # s) = (if x = c then literal cs s else None)"

definition is_digit :: "u8 \<Rightarrow> bool" where
  "is_digit c \<longleftrightarrow> digit_value c \<noteq> None"

definition read_nat :: "nat reader" where
  "read_nat s =
     (let ds = takeWhile is_digit s in map_option (\<lambda>n. (n, drop (length ds) s)) (parse_magnitude ds))"

definition read_byte :: "u8 reader" where
  "read_byte s = (case read_nat s of Some (n, r) \<Rightarrow> if n < 256 then Some (char_of n, r) else None | None \<Rightarrow> None)"

definition read_deadline :: "nat option reader" where
  "read_deadline s =
     (case literal ''null'' s of Some r \<Rightarrow> Some (None, r) | None \<Rightarrow> map_option (map_prod Some id) (read_nat s))"

text \<open>The length of the input bounds the number of items.\<close>

fun read_items :: "nat \<Rightarrow> 'a reader \<Rightarrow> 'a list reader" where
  "read_items 0 p s = None"
| "read_items (Suc n) p s =
     (case p s of
        None \<Rightarrow> None
      | Some (x, []) \<Rightarrow> None
      | Some (x, c # r) \<Rightarrow>
          if c = CHR '']'' then Some ([x], r)
          else if c = CHR '','' then map_option (map_prod (Cons x) id) (read_items n p r)
          else None)"

definition read_list :: "'a reader \<Rightarrow> 'a list reader" where
  "read_list p s =
     (case literal ''['' s of
        None \<Rightarrow> None
      | Some r \<Rightarrow> (case literal '']'' r of Some r' \<Rightarrow> Some ([], r') | None \<Rightarrow> read_items (length r) p r))"

definition read_field :: "string \<Rightarrow> 'a reader \<Rightarrow> 'a reader" where
  "read_field name p s = Option.bind (literal (json_field name []) s) p"

definition read_closed :: "string \<Rightarrow> 'a \<Rightarrow> 'a reader" where
  "read_closed close x s = map_option (Pair x) (literal close s)"

definition read_value :: "SnapshotValue reader" where
  "read_value s = do {
     s1 \<leftarrow> literal ''{'' s;
     (b, s2) \<leftarrow> read_field ''value'' (read_list read_byte) s1;
     s3 \<leftarrow> literal '','' s2;
     (x, s4) \<leftarrow> read_field ''expiration_time_unix'' read_deadline s3;
     read_closed ''}'' \<lparr>snapshot_bytes = b, expiration_time_unix = x\<rparr> s4 }"

definition read_entry :: "SnapshotEntry reader" where
  "read_entry s = do {
     s1 \<leftarrow> literal ''{'' s;
     (k, s2) \<leftarrow> read_field ''key'' (read_list read_byte) s1;
     s3 \<leftarrow> literal '','' s2;
     (v, s4) \<leftarrow> read_field ''value'' read_value s3;
     read_closed ''}'' \<lparr>entry_key = k, entry_value = v\<rparr> s4 }"

definition read_snapshot :: "Snapshot reader" where
  "read_snapshot s = do {
     s1 \<leftarrow> literal ''{'' s;
     (es, s2) \<leftarrow> read_field ''entries'' (read_list read_entry) s1;
     read_closed ''}'' \<lparr>entries = es\<rparr> s2 }"

definition json_from_slice :: "bytes \<Rightarrow> string + Snapshot" where
  "json_from_slice b =
     (case read_snapshot b of Some (s, []) \<Rightarrow> Inr s | _ \<Rightarrow> Inl ''invalid snapshot'')"

section \<open>Reading back\<close>

lemma literal_append [simp]: "literal l (l @ s) = Some s"
  by (induction l) auto

text \<open>A reader reads back what a printer printed, if no digit follows.\<close>

definition reads :: "'a reader \<Rightarrow> ('a \<Rightarrow> string) \<Rightarrow> bool" where
  "reads p print \<longleftrightarrow> (\<forall>x rest. (rest = [] \<or> \<not> is_digit (hd rest)) \<longrightarrow> p (print x @ rest) = Some (x, rest))"

lemma readsD: "reads p print \<Longrightarrow> \<not> is_digit c \<Longrightarrow> p (print x @ c # rest) = Some (x, c # rest)"
  by (simp add: reads_def)

lemma not_digit [simp]:
  "\<not> is_digit (CHR '','')" "\<not> is_digit (CHR '']'')" "\<not> is_digit (CHR ''}'')" "\<not> is_digit (CHR ''n'')"
  by (simp_all add: is_digit_def digit_value_def)

lemma digits_nat_to_string: "list_all is_digit (nat_to_string n)"
proof -
  have "is_digit c" if "c \<in> set (nat_to_string n)" for c
    using that set_nat_to_string [of n] by (auto simp: is_digit_def)
  then show ?thesis by (simp add: list_all_iff)
qed

lemma reads_nat: "reads read_nat nat_to_string"
proof -
  have "takeWhile is_digit (nat_to_string n @ rest) = nat_to_string n" if "rest = [] \<or> \<not> is_digit (hd rest)" for n rest
  proof -
    have "takeWhile is_digit rest = []" using that by (cases rest) auto
    then show ?thesis using digits_nat_to_string [of n] by (simp add: takeWhile_append2 list_all_iff)
  qed
  then show ?thesis by (simp add: reads_def read_nat_def)
qed

lemma reads_byte: "reads read_byte json_byte"
proof -
  have "of_char b < (256 :: nat)" for b :: u8 using nat_of_char_less_256 by simp
  then show ?thesis using reads_nat by (simp add: reads_def read_byte_def json_byte_def)
qed

lemma null_not_nat: "literal ''null'' (nat_to_string n @ rest) = None"
proof (cases "nat_to_string n")
  case (Cons c cs)
  then have "is_digit c" using digits_nat_to_string [of n] by simp
  then have "c \<noteq> CHR ''n''" by auto
  with Cons show ?thesis by simp
qed simp

lemma reads_deadline: "reads read_deadline json_deadline"
proof -
  have "read_deadline (json_deadline x @ rest) = Some (x, rest)" if "rest = [] \<or> \<not> is_digit (hd rest)" for x rest
    using reads_nat [unfolded reads_def, rule_format, OF that]
    by (cases x) (simp_all add: read_deadline_def json_deadline_def null_not_nat)
  then show ?thesis by (simp add: reads_def)
qed

lemma read_items_join:
  "reads p print \<Longrightarrow> xs \<noteq> [] \<Longrightarrow> length xs \<le> n \<Longrightarrow>
     read_items n p (join_with '','' (map print xs) @ CHR '']'' # rest) = Some (xs, rest)"
proof (induction xs arbitrary: n)
  case (Cons x xs)
  then obtain m where m: "n = Suc m" by (cases n) auto
  show ?case
  proof (cases xs)
    case Nil
    with m readsD [OF Cons.prems(1), of "CHR '']''" x rest] show ?thesis by simp
  next
    case (Cons y ys)
    with m Cons.IH [of m] Cons.prems readsD [OF Cons.prems(1), of "CHR '',''" x]
    show ?thesis by simp
  qed
qed simp

lemma length_join: "length xs \<le> Suc (length (join_with '','' (map print xs)))"
proof (induction xs)
  case (Cons x xs)
  then show ?case by (cases xs) auto
qed simp

lemma reads_list:
  assumes "reads p print" and "\<And>x. print x \<noteq> [] \<and> hd (print x) \<noteq> CHR '']''"
  shows "reads (read_list p) (json_list print)"
proof -
  have "read_list p (json_list print xs @ rest) = Some (xs, rest)" for xs rest
  proof (cases xs)
    case Nil
    then show ?thesis by (simp add: read_list_def json_list_def)
  next
    case (Cons x ys)
    let ?r = "join_with '','' (map print xs) @ CHR '']'' # rest"
    have "\<exists>c cs. ?r = c # cs \<and> c \<noteq> CHR '']''"
      using assms(2) [of x] Cons by (cases ys; cases "print x") auto
    then have "literal '']'' ?r = None" by auto
    moreover have "length xs \<le> length ?r" using length_join [of xs print] by simp
    then have "read_items (length ?r) p ?r = Some (xs, rest)"
      using read_items_join [OF assms(1)] Cons by blast
    ultimately show ?thesis by (simp add: read_list_def json_list_def)
  qed
  then show ?thesis by (simp add: reads_def)
qed

lemma read_field_json:
  assumes "reads p print" "\<not> is_digit c"
  shows "read_field name p (json_field name (print x) @ c # rest) = Some (x, c # rest)"
proof -
  have "json_field name (print x) @ c # rest = json_field name [] @ print x @ c # rest" by (simp add: json_field_def)
  then show ?thesis using readsD [OF assms] by (simp add: read_field_def)
qed

lemma json_byte_hd: "json_byte b \<noteq> [] \<and> hd (json_byte b) \<noteq> CHR '']''"
proof -
  have "is_digit (hd (json_byte b))"
    using digits_nat_to_string [of "of_char b"] by (simp add: json_byte_def list_all_iff)
  then show ?thesis by (auto simp: json_byte_def)
qed

lemmas reads_bytes = reads_list [OF reads_byte json_byte_hd]

lemma reads_value: "reads read_value json_value"
  using read_field_json [OF reads_bytes] read_field_json [OF reads_deadline]
  by (simp add: reads_def [of read_value] read_value_def json_value_def read_closed_def)

lemma reads_entry: "reads read_entry json_entry"
  using read_field_json [OF reads_bytes] read_field_json [OF reads_value]
  by (simp add: reads_def [of read_entry] read_entry_def json_entry_def read_closed_def)

lemma json_entry_hd: "json_entry e \<noteq> [] \<and> hd (json_entry e) \<noteq> CHR '']''"
  by (simp add: json_entry_def)

lemma read_snapshot_json: "read_snapshot (json_snapshot s) = Some (s, [])"
  using read_field_json [OF reads_list [OF reads_entry json_entry_hd], of "CHR ''}''" "''entries''" "entries s" "[]"]
  by (simp add: read_snapshot_def json_snapshot_def read_closed_def)

lemma json_reads_back: "json_to_vec s = Inr b \<Longrightarrow> json_from_slice b = Inr s"
  by (auto simp: json_to_vec_def json_from_slice_def read_snapshot_json)

interpretation json: snapshot_codec json_to_vec json_from_slice
  by unfold_locales (rule json_reads_back)

end
