(* ===== verification/Archives.thy ===== *)
theory Archives
  imports Snapshot_Json
begin

text \<open>
  The archive file (\<open>src/src/archive.rs\<close>): \<open>load\<close>, \<open>save\<close> and \<open>save_bytes\<close> on a model of the file
  system that tells what a running process sees from what is on disk, so that a crash can be
  stated. The creation of the temporary file (crate \<open>tempfile\<close>) is a parameter; faults of the
  other system calls are an argument. The temporary file removes itself when it is dropped.
\<close>

section \<open>Paths and files\<close>

record Path =
  absolute :: bool
  comps :: "string list"

definition path_is_empty :: "Path \<Rightarrow> bool" where
  "path_is_empty p \<longleftrightarrow> \<not> absolute p \<and> comps p = []"

definition path_parent :: "Path \<Rightarrow> Path option" where
  "path_parent p = (if comps p = [] then None else Some (p\<lparr>comps := butlast (comps p)\<rparr>))"

record File =
  content :: bytes
  synced :: bool

text \<open>
  Files are named by the components of their absolute path; there are no symbolic links, and the
  component \<open>..\<close> is not resolved. \<open>current\<close> is what the process sees,
  \<open>stable\<close> what the directories on disk hold. A file is written, synced and renamed as a whole
  object, so the data of a synced file is on disk.
\<close>

record Disk =
  cwd :: "string list"
  dirs :: "string list \<Rightarrow> bool"
  current :: "string list \<Rightarrow> File option"
  stable :: "string list \<Rightarrow> File option"

definition resolve :: "Disk \<Rightarrow> Path \<Rightarrow> string list" where
  "resolve d p = (if absolute p then [] else cwd d) @ filter (\<lambda>c. c \<noteq> ''.'') (comps p)"

definition names_file :: "Path \<Rightarrow> bool" where
  "names_file p \<longleftrightarrow> comps p \<noteq> [] \<and> last (comps p) \<noteq> ''.''"

definition path_exists :: "Disk \<Rightarrow> Path \<Rightarrow> bool" where
  "path_exists d p \<longleftrightarrow> \<not> path_is_empty p \<and> (dirs d (resolve d p) \<or> current d (resolve d p) \<noteq> None)"

definition fs_read :: "io_error option \<Rightarrow> Disk \<Rightarrow> Path \<Rightarrow> io_error + bytes" where
  "fs_read fault d p =
     (case fault of
        Some e \<Rightarrow> Inl e
      | None \<Rightarrow>
          if path_is_empty p then Inl NotFound
          else if dirs d (resolve d p) then Inl (OtherIo 21)
          else case current d (resolve d p) of None \<Rightarrow> Inl NotFound | Some f \<Rightarrow> Inr (content f))"

definition fs_put :: "string list \<Rightarrow> File option \<Rightarrow> Disk \<Rightarrow> Disk" where
  "fs_put q f d = d\<lparr>current := (current d)(q := f)\<rparr>"

definition fs_rename :: "io_error option \<Rightarrow> Disk \<Rightarrow> string list \<Rightarrow> Path \<Rightarrow> io_error + Disk" where
  "fs_rename fault d from to =
     (case fault of
        Some e \<Rightarrow> Inl e
      | None \<Rightarrow>
          if path_is_empty to then Inl NotFound
          else if dirs d (resolve d to) then Inl (OtherIo 21)
          else Inr (fs_put from None (fs_put (resolve d to) (current d from) d)))"

definition fs_open_dir :: "io_error option \<Rightarrow> Disk \<Rightarrow> Path \<Rightarrow> io_error option" where
  "fs_open_dir fault d p =
     (case fault of
        Some e \<Rightarrow> Some e
      | None \<Rightarrow> if path_is_empty p \<or> \<not> dirs d (resolve d p) then Some NotFound else None)"

definition fs_sync_dir :: "Disk \<Rightarrow> Path \<Rightarrow> Disk" where
  "fs_sync_dir d p =
     d\<lparr>stable := (\<lambda>q. if q \<noteq> [] \<and> butlast q = resolve d p then current d q else stable d q)\<rparr>"

section \<open>Loading and saving\<close>

datatype 'json ArchiveError =
    ReadFile io_error
  | InvalidArchive "'json RestoreError"
  | InvalidStore 'json
  | WriteFile io_error

fun ArchiveError_fmt :: "'json ArchiveError \<Rightarrow> string" where
  "ArchiveError_fmt (ReadFile _) = ''Unable to read archive file''"
| "ArchiveError_fmt (WriteFile _) = ''Unable to write to archive file''"
| "ArchiveError_fmt (InvalidArchive _) = ''Invalid archive format''"
| "ArchiveError_fmt (InvalidStore _) = ''Unable to serialize store''"

text \<open>The outer \<open>None\<close> is a panic.\<close>

definition load ::
  "(bytes \<Rightarrow> 'json + Snapshot) \<Rightarrow> Clock \<Rightarrow> (nat \<Rightarrow> Clock) \<Rightarrow> io_error option \<Rightarrow> Disk \<Rightarrow> Path \<Rightarrow>
   ('json ArchiveError + Store) option"
where
  "load from_slice now clk fault d path =
     (case fs_read fault d path of
        Inr contents \<Rightarrow> map_option (map_sum InvalidArchive id) (restore from_slice now clk contents)
      | Inl error \<Rightarrow>
          if error = NotFound then
            (case path_parent path of
               Some parent \<Rightarrow>
                 if \<not> path_is_empty parent \<and> \<not> path_exists d parent
                 then Some (Inl (ReadFile error)) else Some (Inr Store_new)
             | None \<Rightarrow> Some (Inr Store_new))
          else Some (Inl (ReadFile error)))"

record Faults =
  fault_write :: "(io_error \<times> nat) option"
  fault_sync :: "io_error option"
  fault_rename :: "io_error option"
  fault_open_dir :: "io_error option"
  fault_sync_dir :: "io_error option"

text \<open>
  \<open>save_bytes\<close> returns its result and all states of the disk on the way, the last one being the
  state it leaves. A failed write has written a part of the bytes.
\<close>

definition save_bytes ::
  "(Path \<Rightarrow> Disk \<Rightarrow> io_error + string list) \<Rightarrow> Faults \<Rightarrow> Disk \<Rightarrow> Path \<Rightarrow> bytes \<Rightarrow> (io_error + unit) \<times> Disk list"
where
  "save_bytes tempfile_in faults d path bytes =
     (let parent = (case path_parent path of Some p \<Rightarrow> p | None \<Rightarrow> \<lparr>absolute = False, comps = [''.'']\<rparr>) in
      case tempfile_in parent d of
        Inl e \<Rightarrow> (Inl e, [d])
      | Inr temp \<Rightarrow>
          let d1 = fs_put temp (Some \<lparr>content = [], synced = False\<rparr>) d in
          (case fault_write faults of
             Some (e, n) \<Rightarrow>
               (Inl e, [d, d1, fs_put temp (Some \<lparr>content = take n bytes, synced = False\<rparr>) d, fs_put temp None d])
           | None \<Rightarrow>
               let d2 = fs_put temp (Some \<lparr>content = bytes, synced = False\<rparr>) d in
               (case fault_sync faults of
                  Some e \<Rightarrow> (Inl e, [d, d1, d2, fs_put temp None d])
                | None \<Rightarrow>
                    let d3 = fs_put temp (Some \<lparr>content = bytes, synced = True\<rparr>) d in
                    (case fs_rename (fault_rename faults) d3 temp path of
                       Inl e \<Rightarrow> (Inl e, [d, d1, d2, d3, fs_put temp None d])
                     | Inr d4 \<Rightarrow>
                         (case fs_open_dir (fault_open_dir faults) d4 parent of
                            Some e \<Rightarrow> (Inl e, [d, d1, d2, d3, d4])
                          | None \<Rightarrow>
                              (case fault_sync_dir faults of
                                 Some e \<Rightarrow> (Inl e, [d, d1, d2, d3, d4])
                               | None \<Rightarrow> (Inr (), [d, d1, d2, d3, d4, fs_sync_dir d4 parent])))))))"

definition save ::
  "(Path \<Rightarrow> Disk \<Rightarrow> io_error + string list) \<Rightarrow> Faults \<Rightarrow> (Snapshot \<Rightarrow> 'json + bytes) \<Rightarrow> Instant \<Rightarrow>
   (nat \<Rightarrow> Clock) \<Rightarrow> Disk \<Rightarrow> Path \<Rightarrow> Store \<Rightarrow> ('json ArchiveError + unit) option \<times> Disk list"
where
  "save tempfile_in faults to_vec now clk d path store =
     (case dump to_vec store now clk of
        None \<Rightarrow> (None, [d])
      | Some (Inl e) \<Rightarrow> (Some (Inl (InvalidStore e)), [d])
      | Some (Inr bytes) \<Rightarrow>
          apfst (\<lambda>r. Some (map_sum WriteFile id r)) (save_bytes tempfile_in faults d path bytes))"

section \<open>Crashes\<close>

text \<open>
  What may be found under a name after a crash: what the directory on disk held or what the
  process saw, with the data of a file that was not synced arbitrary.
\<close>

definition survives :: "File option \<Rightarrow> bytes option \<Rightarrow> bool" where
  "survives f r \<longleftrightarrow> (case f of None \<Rightarrow> r = None | Some f \<Rightarrow> synced f \<longrightarrow> r = Some (content f))"

definition after_crash :: "Disk \<Rightarrow> string list \<Rightarrow> bytes option \<Rightarrow> bool" where
  "after_crash d q r \<longleftrightarrow> survives (current d q) r \<or> survives (stable d q) r"

definition durable :: "Disk \<Rightarrow> string list \<Rightarrow> bool" where
  "durable d q \<longleftrightarrow> current d q = stable d q \<and> (\<forall>f. current d q = Some f \<longrightarrow> synced f)"

definition temp_law :: "(Path \<Rightarrow> Disk \<Rightarrow> io_error + string list) \<Rightarrow> Disk \<Rightarrow> string list \<Rightarrow> bool" where
  "temp_law tempfile_in d q \<longleftrightarrow>
     (\<forall>p t. tempfile_in p d = Inr t \<longrightarrow> current d t = None \<and> \<not> dirs d t \<and> t \<noteq> q)"

lemma fs_put_simps [simp]:
  "current (fs_put q f d) = (current d)(q := f)" "stable (fs_put q f d) = stable d"
  "dirs (fs_put q f d) = dirs d" "cwd (fs_put q f d) = cwd d" "resolve (fs_put q f d) = resolve d"
  by (simp_all add: fs_put_def resolve_def fun_eq_iff)

lemma fs_sync_dir_simps [simp]:
  "current (fs_sync_dir d p) = current d" "dirs (fs_sync_dir d p) = dirs d" "cwd (fs_sync_dir d p) = cwd d"
  "resolve (fs_sync_dir d p) = resolve d"
  by (simp_all add: fs_sync_dir_def resolve_def fun_eq_iff)

lemma fs_rename_Inr:
  "fs_rename fault d from to = Inr d' \<Longrightarrow>
     \<not> path_is_empty to \<and> \<not> dirs d (resolve d to) \<and>
     d' = fs_put from None (fs_put (resolve d to) (current d from) d)"
  by (auto simp: fs_rename_def split: option.splits if_splits)

lemma resolve_parent:
  assumes "names_file p"
  obtains par where "path_parent p = Some par" "butlast (resolve d p) = resolve d par" "resolve d p \<noteq> []"
proof -
  obtain cs c where "comps p = cs @ [c]" "c \<noteq> ''.''"
    using assms by (metis append_butlast_last_id names_file_def)
  then show thesis
    by (intro that [of "p\<lparr>comps := cs\<rparr>"]) (simp_all add: path_parent_def resolve_def butlast_append)
qed

section \<open>Facts about saving\<close>

text \<open>The states on the way of a save, with what each shows under the name of the archive.\<close>

definition untouched :: "Disk \<Rightarrow> string list \<Rightarrow> Disk \<Rightarrow> bool" where
  "untouched d q d' \<longleftrightarrow> current d' q = current d q \<and> stable d' q = stable d q"

definition replaced :: "Disk \<Rightarrow> string list \<Rightarrow> bytes \<Rightarrow> Disk \<Rightarrow> bool" where
  "replaced d q bytes d' \<longleftrightarrow> \<not> dirs d q \<and> current d' q = Some \<lparr>content = bytes, synced = True\<rparr> \<and>
     (stable d' q = stable d q \<or> stable d' q = current d' q)"

lemma save_bytes_states:
  assumes "temp_law tempfile_in d (resolve d path)"
    and "save_bytes tempfile_in faults d path bytes = (r, ds)" and "d' \<in> set ds"
  shows "untouched d (resolve d path) d' \<or> replaced d (resolve d path) bytes d'"
proof (cases "tempfile_in (case path_parent path of Some p \<Rightarrow> p | None \<Rightarrow> \<lparr>absolute = False, comps = [''.'']\<rparr>) d")
  case (Inl e)
  with assms(2,3) show ?thesis by (auto simp: save_bytes_def untouched_def)
next
  case (Inr temp)
  then have "temp \<noteq> resolve d path" using assms(1) by (auto simp: temp_law_def)
  with Inr assms(2,3) show ?thesis
    by (auto simp: save_bytes_def Let_def untouched_def replaced_def fs_sync_dir_def
        split: option.splits sum.splits prod.splits if_splits dest!: fs_rename_Inr)
qed

lemma save_bytes_others:
  assumes "temp_law tempfile_in d (resolve d path)"
    and "save_bytes tempfile_in faults d path bytes = (r, ds)" and "q \<noteq> resolve d path"
  shows "current (last ds) q = current d q"
proof (cases "tempfile_in (case path_parent path of Some p \<Rightarrow> p | None \<Rightarrow> \<lparr>absolute = False, comps = [''.'']\<rparr>) d")
  case (Inl e)
  with assms(2) show ?thesis by (auto simp: save_bytes_def)
next
  case (Inr temp)
  then have "current d temp = None" using assms(1) by (auto simp: temp_law_def)
  with Inr assms(2,3) show ?thesis
    by (auto simp: save_bytes_def Let_def split: option.splits sum.splits prod.splits if_splits dest!: fs_rename_Inr)
qed

lemma save_bytes_success:
  assumes "temp_law tempfile_in d (resolve d path)"
    and "save_bytes tempfile_in faults d path bytes = (Inr (), ds)" and "names_file path"
  shows "current (last ds) (resolve d path) = Some \<lparr>content = bytes, synced = True\<rparr>"
    and "stable (last ds) (resolve d path) = Some \<lparr>content = bytes, synced = True\<rparr>"
    and "\<not> dirs d (resolve d path)" and "dirs (last ds) = dirs d" and "cwd (last ds) = cwd d"
proof -
  obtain par where par: "path_parent path = Some par" "butlast (resolve d path) = resolve d par" "resolve d path \<noteq> []"
    by (rule resolve_parent [OF assms(3)])
  from assms(2) par(1) obtain temp where t: "tempfile_in par d = Inr temp"
    by (cases "tempfile_in par d") (auto simp: save_bytes_def)
  then have ne: "temp \<noteq> resolve d path" using assms(1) by (auto simp: temp_law_def)
  let ?d3 = "fs_put temp (Some \<lparr>content = bytes, synced = True\<rparr>) d"
  from assms(2) par(1) t obtain d4 where d4: "fs_rename (fault_rename faults) ?d3 temp path = Inr d4"
    "last ds = fs_sync_dir d4 par"
    by (auto simp: save_bytes_def Let_def split: option.splits sum.splits)
  note r = fs_rename_Inr [OF d4(1)]
  with ne par(2,3) d4(2) show "current (last ds) (resolve d path) = Some \<lparr>content = bytes, synced = True\<rparr>"
    and "stable (last ds) (resolve d path) = Some \<lparr>content = bytes, synced = True\<rparr>"
    and "\<not> dirs d (resolve d path)" and "dirs (last ds) = dirs d" and "cwd (last ds) = cwd d"
    by (simp_all add: fs_sync_dir_def)
qed

lemma replaced_crash:
  assumes "durable d q" and "replaced d q bytes d'" and "after_crash d' q r"
  shows "r = map_option content (current d q) \<or> r = Some bytes"
  using assms by (cases "stable d q") (auto simp: durable_def replaced_def after_crash_def survives_def)

lemma untouched_crash:
  assumes "durable d q" and "untouched d q d'" and "after_crash d' q r"
  shows "r = map_option content (current d q)"
  using assms by (cases "stable d q") (auto simp: durable_def untouched_def after_crash_def survives_def)

lemma save_states:
  assumes "temp_law tempfile_in d (resolve d path)"
    and "save tempfile_in faults to_vec now clk d path s = (res, ds)" and "d' \<in> set ds"
  shows "untouched d (resolve d path) d' \<or>
    (\<exists>snap bytes. to_snapshot s now clk = Some snap \<and> to_vec snap = Inr bytes \<and> replaced d (resolve d path) bytes d')"
proof (cases "\<exists>bytes. dump to_vec s now clk = Some (Inr bytes)")
  case False
  then have "d' = d"
    using assms(2,3) by (cases "dump to_vec s now clk") (auto simp: save_def split: sum.splits)
  then show ?thesis by (simp add: untouched_def)
next
  case True
  then obtain bytes snap where b: "to_snapshot s now clk = Some snap" "to_vec snap = Inr bytes"
    "dump to_vec s now clk = Some (Inr bytes)" by (auto simp: dump_def)
  then obtain r where "save_bytes tempfile_in faults d path bytes = (r, ds)"
    using assms(2) by (cases "save_bytes tempfile_in faults d path bytes") (auto simp: save_def)
  from save_bytes_states [OF assms(1) this assms(3)] b show ?thesis by blast
qed

section \<open>Correctness of the archive\<close>

text \<open>
  C29. Crash atomicity: whatever system call fails and wherever the machine stops during a save,
  what is found under the archive's name is the old archive or the new bytes, each complete; after
  a save that returned success it is the new bytes; and no save, failed or not, leaves a temporary
  file behind or changes any other file.
\<close>

theorem save_crash_atomic:
  assumes "temp_law tempfile_in d (resolve d path)" and "durable d (resolve d path)"
    and "save_bytes tempfile_in faults d path bytes = (res, ds)"
  shows "(\<forall>d' \<in> set ds. \<forall>r. after_crash d' (resolve d path) r \<longrightarrow>
      r = map_option content (current d (resolve d path)) \<or> r = Some bytes) \<and>
    (res = Inr () \<and> names_file path \<longrightarrow> (\<forall>r. after_crash (last ds) (resolve d path) r \<longrightarrow> r = Some bytes)) \<and>
    (\<forall>q. q \<noteq> resolve d path \<longrightarrow> current (last ds) q = current d q)"
proof (intro conjI ballI allI impI)
  fix d' r assume "d' \<in> set ds" "after_crash d' (resolve d path) r"
  with save_bytes_states [OF assms(1,3)] replaced_crash [OF assms(2)] untouched_crash [OF assms(2)]
  show "r = map_option content (current d (resolve d path)) \<or> r = Some bytes" by blast
next
  fix r assume "res = Inr () \<and> names_file path" "after_crash (last ds) (resolve d path) r"
  with save_bytes_success(1,2) [OF assms(1)] assms(3) show "r = Some bytes"
    by (auto simp: after_crash_def survives_def)
next
  fix q assume "q \<noteq> resolve d path"
  with save_bytes_others [OF assms(1,3)] show "current (last ds) q = current d q" by blast
qed

definition no_faults :: Faults where
  "no_faults = \<lparr>fault_write = None, fault_sync = None, fault_rename = None, fault_open_dir = None, fault_sync_dir = None\<rparr>"

definition disk_with :: "bytes option \<Rightarrow> Disk" where
  "disk_with old = \<lparr>cwd = [''srv''], dirs = (\<lambda>q. q = [] \<or> q = [''srv'']),
     current = (\<lambda>q. if q = [''srv'', ''db''] then map_option (\<lambda>b. \<lparr>content = b, synced = True\<rparr>) old else None),
     stable = (\<lambda>q. if q = [''srv'', ''db''] then map_option (\<lambda>b. \<lparr>content = b, synced = True\<rparr>) old else None)\<rparr>"

declare path_is_empty_def [fs_eval] path_parent_def [fs_eval] path_exists_def [fs_eval] resolve_def [fs_eval]
  fs_read_def [fs_eval] fs_put_def [fs_eval] fs_rename_def [fs_eval] fs_open_dir_def [fs_eval] fs_sync_dir_def [fs_eval]
  no_faults_def [fs_eval] disk_with_def [fs_eval]

theorem save_crash_atomic_witness:
  "\<not> after_crash (last (snd (save_bytes (\<lambda>_ _. Inr [''srv'', ''archive.1.tmp'']) no_faults (disk_with (Some ''old''))
        \<lparr>absolute = True, comps = [''srv'', ''db'']\<rparr> ''new''))) [''srv'', ''db''] (Some ''ne'')"
proof -
  let ?path = "\<lparr>absolute = True, comps = [''srv'', ''db'']\<rparr>" and ?d = "disk_with (Some ''old'')"
  let ?t = "\<lambda>_ _. Inr [''srv'', ''archive.1.tmp'']"
  have q: "resolve ?d ?path = [''srv'', ''db'']" by (simp add: resolve_def)
  have "temp_law ?t ?d (resolve ?d ?path)" "durable ?d (resolve ?d ?path)"
    unfolding q by (simp_all add: temp_law_def disk_with_def durable_def)
  moreover obtain r ds where sv: "save_bytes ?t no_faults ?d ?path ''new'' = (r, ds)" by fastforce
  moreover have "map_option content (current ?d [''srv'', ''db'']) = Some ''old''" by (simp add: disk_with_def)
  moreover have "last ds \<in> set ds"
    using sv by (auto simp: save_bytes_def Let_def split: option.splits sum.splits)
  ultimately show ?thesis
    using save_crash_atomic [of ?t ?d ?path no_faults "''new''" r ds] unfolding q by fastforce
qed

context snapshot_codec
begin

lemma load_saved:
  assumes "temp_law tempfile_in d (resolve d path)" and "names_file path"
    and "save tempfile_in faults to_vec now clk d path s = (Some (Inr ()), ds)"
  shows "\<exists>snap. to_snapshot s now clk = Some snap \<and>
    load from_slice now' clk' None (last ds) path =
      map_option (map_sum (\<lambda>e. InvalidArchive (InvalidData e)) id) (from_snapshot now' clk' snap)"
proof -
  from assms(3) obtain bytes where dump: "dump to_vec s now clk = Some (Inr bytes)"
    and saved: "save_bytes tempfile_in faults d path bytes = (Inr (), ds)"
    by (auto simp: save_def map_sum_def apfst_def map_prod_def split: option.splits sum.splits prod.splits)
  from restore_dump [OF dump]
  obtain snap where snap: "to_snapshot s now clk = Some snap" "from_slice bytes = Inr snap" by blast
  note ok = save_bytes_success [OF assms(1) saved assms(2)]
  have "resolve (last ds) path = resolve d path" using ok(5) by (simp add: resolve_def)
  moreover have "\<not> path_is_empty path" using assms(2) by (simp add: path_is_empty_def names_file_def)
  ultimately have "fs_read None (last ds) path = Inr bytes"
    using ok(1,3,4) by (simp add: fs_read_def)
  with snap show ?thesis
    by (simp add: load_def restore_def option.map_comp sum.map_comp o_def id_def RestoreError_from_SnapshotError_def)
qed

end

text \<open>
  C30. Save and load: a save that returns success is read back by the next load: it restores
  exactly the snapshot that was taken, whatever was in the archive before.
\<close>

theorem save_load:
  assumes "snapshot_codec to_vec from_slice"
    and "temp_law tempfile_in d (resolve d path)" and "names_file path"
    and "save tempfile_in faults to_vec now clk d path s = (Some (Inr ()), ds)"
  shows "\<exists>snap. to_snapshot s now clk = Some snap \<and>
    load from_slice now' clk' None (last ds) path =
      map_option (map_sum (\<lambda>e. InvalidArchive (InvalidData e)) id) (from_snapshot now' clk' snap)"
  using assms by (rule snapshot_codec.load_saved)

theorem save_load_witness:
  "\<exists>snap. to_snapshot (snd (Store_set Store_new ''k'' ''v'')) 0 (\<lambda>_. \<lparr>sys_time = Some 0, mono = 0\<rparr>) = Some snap \<and>
     load json_from_slice \<lparr>sys_time = Some 0, mono = 0\<rparr> (\<lambda>_. \<lparr>sys_time = Some 0, mono = 0\<rparr>) None
       (last (snd (save (\<lambda>_ _. Inr [''srv'', ''archive.1.tmp'']) no_faults json_to_vec
          0 (\<lambda>_. \<lparr>sys_time = Some 0, mono = 0\<rparr>) (disk_with None) \<lparr>absolute = True, comps = [''srv'', ''db'']\<rparr>
          (snd (Store_set Store_new ''k'' ''v'')))))
       \<lparr>absolute = True, comps = [''srv'', ''db'']\<rparr> =
     map_option (map_sum (\<lambda>e. InvalidArchive (InvalidData e)) id)
       (from_snapshot \<lparr>sys_time = Some 0, mono = 0\<rparr> (\<lambda>_. \<lparr>sys_time = Some 0, mono = 0\<rparr>) snap)"
proof (rule save_load [OF json.snapshot_codec_axioms, where d = "disk_with None"])
  let ?path = "\<lparr>absolute = True, comps = [''srv'', ''db'']\<rparr>" and ?d = "disk_with None"
  let ?t = "\<lambda>_ _. Inr [''srv'', ''archive.1.tmp'']" and ?s = "snd (Store_set Store_new ''k'' ''v'')"
  have q: "resolve ?d ?path = [''srv'', ''db'']" by (simp add: resolve_def)
  show "temp_law ?t ?d (resolve ?d ?path)" unfolding q by (simp add: temp_law_def disk_with_def)
  show "names_file ?path" by (simp add: names_file_def)
  have "fst (save ?t no_faults json_to_vec 0 (\<lambda>_. \<lparr>sys_time = Some 0, mono = 0\<rparr>) ?d ?path ?s) = Some (Inr ())"
    by (simp add: save_def dump_def to_snapshot_def Store_new_def Store_set_def from_parts_def hm_iter_def hm_insert_def
        hm_new_def is_expired_def SnapshotValue_from_ref_def unix_now_millis_def json_to_vec_def save_bytes_def fs_eval)
  then show "save ?t no_faults json_to_vec 0 (\<lambda>_. \<lparr>sys_time = Some 0, mono = 0\<rparr>) ?d ?path ?s = (Some (Inr ()),
      snd (save ?t no_faults json_to_vec 0 (\<lambda>_. \<lparr>sys_time = Some 0, mono = 0\<rparr>) ?d ?path ?s))"
    by (metis prod.collapse)
qed

text \<open>
  C31. A bare file name as archive path: the parent of such a path is the empty path, which cannot
  be opened as a directory, so a save whose every system call works replaces the archive and then
  reports that it could not write it.
\<close>

theorem bare_name_save_fails:
  assumes "tempfile_in \<lparr>absolute = False, comps = []\<rparr> d = Inr temp" and "temp \<noteq> cwd d @ [name]"
    and "name \<noteq> ''.''" and "\<not> dirs d (cwd d @ [name])"
    and "save_bytes tempfile_in no_faults d \<lparr>absolute = False, comps = [name]\<rparr> bytes = (res, ds)"
  shows "res = Inl NotFound \<and> current (last ds) (cwd d @ [name]) = Some \<lparr>content = bytes, synced = True\<rparr>"
  using assms
  by (auto simp: save_bytes_def fs_eval Let_def)

theorem bare_name_save_fails_witness:
  "fst (save_bytes (\<lambda>_ _. Inr [''srv'', ''archive.1.tmp'']) no_faults (disk_with None)
     \<lparr>absolute = False, comps = [''db'']\<rparr> ''new'') = Inl NotFound"
proof -
  have d: "cwd (disk_with None) = [''srv'']" "\<not> dirs (disk_with None) [''srv'', ''db'']"
    by (simp_all add: disk_with_def)
  obtain r ds where "save_bytes (\<lambda>_ _. Inr [''srv'', ''archive.1.tmp'']) no_faults (disk_with None)
     \<lparr>absolute = False, comps = [''db'']\<rparr> ''new'' = (r, ds)" by fastforce
  with bare_name_save_fails [OF refl _ _ _ this] d show ?thesis by simp
qed

text \<open>
  C32. Restart after a crash: if the machine stops anywhere during a save and the server starts
  again, loading gives what the old archive gives or what the snapshot being saved gives; a valid
  archive is never turned into an invalid one, nor into a first run.
\<close>

theorem crash_then_load:
  assumes "snapshot_codec to_vec from_slice"
    and "temp_law tempfile_in d (resolve d path)" and "durable d (resolve d path)" and "names_file path"
    and "path_parent path = Some parent" and "dirs d (resolve d parent)"
    and "save tempfile_in faults to_vec now clk d path s = (res, ds)" and "d' \<in> set ds"
    and "after_crash d' (resolve d path) r" and "map_option content (current d'' (resolve d path)) = r"
    and "dirs d'' = dirs d" and "cwd d'' = cwd d"
  shows "load from_slice now' clk' None d'' path = load from_slice now' clk' None d path \<or>
    (\<exists>snap. to_snapshot s now clk = Some snap \<and> load from_slice now' clk' None d'' path =
       map_option (map_sum (\<lambda>e. InvalidArchive (InvalidData e)) id) (from_snapshot now' clk' snap))"
proof -
  let ?q = "resolve d path"
  have q: "resolve d'' p = resolve d p" for p using assms(12) by (simp add: resolve_def)
  have ne: "\<not> path_is_empty path" using assms(4) by (simp add: path_is_empty_def names_file_def)
  have same: "load from_slice now' clk' None d'' path = load from_slice now' clk' None d path"
    if "map_option content (current d'' ?q) = map_option content (current d ?q)"
  proof -
    have "fs_read None d'' path = fs_read None d path"
      using that by (auto simp: fs_read_def q assms(11) split: option.splits)
    moreover have "path_is_empty parent \<or> path_exists d'' parent \<and> path_exists d parent"
      using assms(6) by (simp add: path_exists_def q assms(11))
    ultimately show ?thesis using assms(5) by (auto simp: load_def split: sum.split)
  qed
  from save_states [OF assms(2,7,8)] show ?thesis
  proof (elim disjE exE conjE)
    assume "untouched d ?q d'"
    from untouched_crash [OF assms(3) this assms(9)] same assms(10) show ?thesis by simp
  next
    fix snap bytes assume snap: "to_snapshot s now clk = Some snap" "to_vec snap = Inr bytes"
      and rep: "replaced d ?q bytes d'"
    from replaced_crash [OF assms(3) rep assms(9)] show ?thesis
    proof
      assume "r = Some bytes"
      with rep ne assms(10) have "fs_read None d'' path = Inr bytes"
        by (auto simp: fs_read_def q assms(11) replaced_def)
      with snap snapshot_codec.read_back [OF assms(1) snap(2)] show ?thesis
        by (simp add: load_def restore_def option.map_comp sum.map_comp o_def id_def RestoreError_from_SnapshotError_def)
    qed (use same assms(10) in simp)
  qed
qed

theorem crash_then_load_witness:
  "load (\<lambda>_. Inr \<lparr>entries = []\<rparr>) \<lparr>sys_time = Some 0, mono = 0\<rparr> (\<lambda>_. \<lparr>sys_time = Some 0, mono = 0\<rparr>) None
     (disk_with (Some ''{}'')) \<lparr>absolute = True, comps = [''srv'', ''db'']\<rparr> =
   Some (Inr Store_new :: unit ArchiveError + Store)"
proof -
  let ?path = "\<lparr>absolute = True, comps = [''srv'', ''db'']\<rparr>" and ?d = "disk_with None" and ?d2 = "disk_with (Some ''{}'')"
  let ?t = "\<lambda>_ _. Inr [''srv'', ''archive.1.tmp'']" and ?clk = "\<lambda>_ :: nat. \<lparr>sys_time = Some 0, mono = 0\<rparr>"
  let ?to = "\<lambda>s. if s = \<lparr>entries = []\<rparr> then Inr ''{}'' else Inl ()"
  let ?load = "\<lambda>d. load (\<lambda>_. Inr \<lparr>entries = []\<rparr>) \<lparr>sys_time = Some 0, mono = 0\<rparr> ?clk None d ?path :: (unit ArchiveError + Store) option"
  let ?ds = "snd (save ?t no_faults ?to 0 ?clk ?d ?path Store_new)"
  have q: "resolve d ?path = [''srv'', ''db'']" for d by (simp add: resolve_def)
  have law: "snapshot_codec ?to (\<lambda>_. Inr \<lparr>entries = []\<rparr>)" by unfold_locales (auto split: if_splits)
  have temp: "temp_law ?t ?d (resolve ?d ?path)" unfolding q by (simp add: temp_law_def disk_with_def)
  have dur: "durable ?d (resolve ?d ?path)" unfolding q by (simp add: durable_def disk_with_def)
  have names: "names_file ?path" "path_parent ?path = Some \<lparr>absolute = True, comps = [''srv'']\<rparr>"
    by (simp_all add: names_file_def path_parent_def)
  have dir: "dirs ?d (resolve ?d \<lparr>absolute = True, comps = [''srv'']\<rparr>)" by (simp add: resolve_def disk_with_def)
  have sv: "save ?t no_faults ?to 0 ?clk ?d ?path Store_new = (fst (save ?t no_faults ?to 0 ?clk ?d ?path Store_new), ?ds)"
    by simp
  have ds: "last ?ds \<in> set ?ds \<and> current (last ?ds) [''srv'', ''db''] = Some \<lparr>content = ''{}'', synced = True\<rparr>"
    by (simp add: save_def dump_def to_snapshot_def Store_new_def from_parts_def hm_iter_def hm_new_def save_bytes_def
        fs_eval)
  then have crash: "after_crash (last ?ds) (resolve ?d ?path) (Some ''{}'')"
    unfolding q by (simp add: after_crash_def survives_def)
  have d2: "map_option content (current ?d2 (resolve ?d ?path)) = Some ''{}''" "dirs ?d2 = dirs ?d" "cwd ?d2 = cwd ?d"
    unfolding q by (simp_all add: disk_with_def)
  have "?load ?d2 = ?load ?d \<or> (\<exists>snap. to_snapshot Store_new 0 ?clk = Some snap \<and> ?load ?d2 =
      map_option (map_sum (\<lambda>e. InvalidArchive (InvalidData e)) id)
        (from_snapshot \<lparr>sys_time = Some 0, mono = 0\<rparr> ?clk snap))"
    using ds by (intro crash_then_load [OF law temp dur names dir sv _ crash d2]) simp
  moreover have "to_snapshot Store_new 0 ?clk = Some \<lparr>entries = []\<rparr>"
    by (simp add: to_snapshot_def Store_new_def from_parts_def hm_iter_def hm_new_def)
  moreover have "from_snapshot \<lparr>sys_time = Some 0, mono = 0\<rparr> ?clk \<lparr>entries = []\<rparr> = Some (Inr Store_new)"
    by (simp add: from_snapshot_def unix_now_millis_def hm_collect_def hm_new_def hm_iter_def heap_of_def
        List.map_filter_def heap_new_def Store_new_def)
  moreover have "?load ?d = Some (Inr Store_new)"
    by (simp add: load_def fs_eval)
  ultimately show ?thesis by auto
qed

end
