(* ===== verification/Configs.thy ===== *)
theory Configs
  imports Archives
begin

text \<open>
  The configuration (\<open>src/src/config.rs\<close>): the arguments it declares, their values, the configuration
  made of them, with the password in a secret container (crate \<open>secrecy\<close>), and its debug output, which
  \<open>main\<close> logs. The argument parser (crate \<open>clap\<close>) is a parameter that is given the declared arguments,
  the command line and the environment; \<open>clap_law\<close> is what its documentation says of plain command
  lines. The text the standard library gives for addresses and paths is a parameter too.
\<close>

section \<open>Configurations\<close>

type_synonym u16 = "16 word"

record 'ip RawConfig =
  raw_address :: 'ip
  raw_port :: u16
  raw_archive_path :: "Path option"
  raw_auth_password :: "string option"

record ('ip, 'sec) Config =
  address :: 'ip
  port :: u16
  archive_path :: "Path option"
  config_password :: "'sec option"

definition from_raw :: "(bytes \<Rightarrow> 'sec) \<Rightarrow> 'ip RawConfig \<Rightarrow> ('ip, 'sec) Config" where
  "from_raw secret_new raw =
     \<lparr>address = raw_address raw, port = raw_port raw, archive_path = raw_archive_path raw,
      config_password = map_option secret_new (raw_auth_password raw)\<rparr>"

section \<open>Arguments\<close>

text \<open>
  The attributes of the fields of \<open>RawConfig\<close>: without a value, \<open>short\<close>, \<open>long\<close> and \<open>env\<close> are derived
  from the name of the field.
\<close>

record ArgSpec =
  arg_id :: string
  arg_short :: "char option"
  arg_long :: string
  arg_env :: string
  arg_default :: "string option"

definition RawConfig_args :: "ArgSpec list" where
  "RawConfig_args =
     [\<lparr>arg_id = ''address'', arg_short = Some (CHR ''a''), arg_long = ''address'', arg_env = ''ADDRESS'',
       arg_default = Some ''127.0.0.1''\<rparr>,
      \<lparr>arg_id = ''port'', arg_short = Some (CHR ''p''), arg_long = ''port'', arg_env = ''PORT'',
       arg_default = Some ''6379''\<rparr>,
      \<lparr>arg_id = ''archive_path'', arg_short = Some (CHR ''r''), arg_long = ''archive-path'', arg_env = ''ARCHIVE_PATH'',
       arg_default = None\<rparr>,
      \<lparr>arg_id = ''auth_password'', arg_short = None, arg_long = ''auth-password'', arg_env = ''AUTH_PASSWORD'',
       arg_default = None\<rparr>]"

text \<open>The value parser of the port: an integer in the range 1024 to 65535.\<close>

definition port_value :: "string \<Rightarrow> u16 option" where
  "port_value s =
     (case parse_i64 s of
        None \<Rightarrow> None
      | Some n \<Rightarrow> if 1024 \<le> sint n \<and> sint n \<le> 65535 then Some (word_of_int (sint n)) else None)"

text \<open>
  \<open>PathBuf::from\<close>, up to the equality of paths: separators may be repeated, and \<open>.\<close> counts only at the
  beginning of a relative path.
\<close>

fun split_on :: "char \<Rightarrow> string \<Rightarrow> string list" where
  "split_on c [] = [[]]"
| "split_on c (x # xs) =
     (if x = c then [] # split_on c xs
      else case split_on c xs of [] \<Rightarrow> [[x]] | y # ys \<Rightarrow> (x # y) # ys)"

definition path_from :: "string \<Rightarrow> Path" where
  "path_from s =
     (let parts = filter (\<lambda>c. c \<noteq> []) (split_on (CHR ''/'') s); no_dots = filter (\<lambda>c. c \<noteq> ''.'') in
      if s \<noteq> [] \<and> hd s = CHR ''/'' then \<lparr>absolute = True, comps = no_dots parts\<rparr>
      else \<lparr>absolute = False, comps = (case parts of [] \<Rightarrow> [] | c # cs \<Rightarrow> c # no_dots cs)\<rparr>)"

text \<open>
  \<open>RawConfig::try_parse_from\<close>: \<open>clap\<close> finds a text for each argument or fails, and the texts go through
  the value parsers; an empty path is not a value.
\<close>

definition RawConfig_try_parse_from ::
  "(ArgSpec list \<Rightarrow> string list \<Rightarrow> (string \<Rightarrow> string option) \<Rightarrow> 'clap + (string \<Rightarrow> string option)) \<Rightarrow> (string \<Rightarrow> 'clap) \<Rightarrow>
   (string \<Rightarrow> 'ip option) \<Rightarrow> (string \<Rightarrow> string option) \<Rightarrow> string list \<Rightarrow> 'clap + 'ip RawConfig"
where
  "RawConfig_try_parse_from clap invalid parse_ip env args =
     (case clap RawConfig_args args env of
        Inl e \<Rightarrow> Inl e
      | Inr vals \<Rightarrow>
          (case Option.bind (vals ''address'') parse_ip of
             None \<Rightarrow> Inl (invalid ''address'')
           | Some a \<Rightarrow>
               (case Option.bind (vals ''port'') port_value of
                  None \<Rightarrow> Inl (invalid ''port'')
                | Some p \<Rightarrow>
                    if vals ''archive_path'' = Some [] then Inl (invalid ''archive_path'')
                    else Inr \<lparr>raw_address = a, raw_port = p, raw_archive_path = map_option path_from (vals ''archive_path''),
                              raw_auth_password = vals ''auth_password''\<rparr>)))"

text \<open>
  What \<open>clap\<close> promises for every declaration of arguments with different names and flags: on a command
  line that gives each argument at most once, as a flag followed by a value that does not look like
  a flag, the value of an argument is the one on the command line, else the one in the environment,
  else its default.
\<close>

definition arg_flag :: "ArgSpec \<Rightarrow> string \<Rightarrow> bool" where
  "arg_flag a f \<longleftrightarrow> f = ''--'' @ arg_long a \<or> (case arg_short a of None \<Rightarrow> False | Some c \<Rightarrow> f = [CHR ''-'', c])"

definition arg_value :: "ArgSpec list \<Rightarrow> (string \<times> string) list \<Rightarrow> (string \<Rightarrow> string option) \<Rightarrow> string \<Rightarrow> string option" where
  "arg_value specs given env name =
     (case find (\<lambda>a. arg_id a = name) specs of
        None \<Rightarrow> None
      | Some a \<Rightarrow>
          (case find (\<lambda>(f, v). arg_flag a f) given of
             Some (f, v) \<Rightarrow> Some v
           | None \<Rightarrow> (case env (arg_env a) of Some v \<Rightarrow> Some v | None \<Rightarrow> arg_default a)))"

definition plain_arguments :: "ArgSpec list \<Rightarrow> (string \<times> string) list \<Rightarrow> bool" where
  "plain_arguments specs given \<longleftrightarrow>
     (\<forall>(f, v) \<in> set given. (\<exists>a \<in> set specs. arg_flag a f) \<and> v \<noteq> [] \<and> hd v \<noteq> CHR ''-'') \<and>
     (\<forall>a \<in> set specs. length (filter (\<lambda>(f, v). arg_flag a f) given) \<le> 1)"

definition command_line :: "string \<Rightarrow> (string \<times> string) list \<Rightarrow> string list" where
  "command_line prog given = prog # concat (map (\<lambda>(f, v). [f, v]) given)"

definition proper_specs :: "ArgSpec list \<Rightarrow> bool" where
  "proper_specs specs \<longleftrightarrow> distinct (map arg_id specs) \<and> distinct (map arg_long specs) \<and>
     distinct (filter (\<lambda>s. s \<noteq> None) (map arg_short specs))"

definition clap_law ::
  "(ArgSpec list \<Rightarrow> string list \<Rightarrow> (string \<Rightarrow> string option) \<Rightarrow> 'clap + (string \<Rightarrow> string option)) \<Rightarrow> bool"
where
  "clap_law clap \<longleftrightarrow>
     (\<forall>specs prog given env. proper_specs specs \<and> plain_arguments specs given \<and> (\<forall>x. env x \<noteq> Some []) \<longrightarrow>
        clap specs (command_line prog given) env = Inr (arg_value specs given env))"

section \<open>Parsing\<close>

definition try_parse_from ::
  "('args \<Rightarrow> 'clap + 'ip RawConfig) \<Rightarrow> (bytes \<Rightarrow> 'sec) \<Rightarrow> 'args \<Rightarrow> 'clap + ('ip, 'sec) Config"
where
  "try_parse_from clap_parse secret_new args = map_sum id (from_raw secret_new) (clap_parse args)"

text \<open>\<open>RawConfig::parse\<close> ends the process on an error, which is \<open>None\<close> here.\<close>

definition get_config :: "('args \<Rightarrow> 'clap + 'ip RawConfig) \<Rightarrow> (bytes \<Rightarrow> 'sec) \<Rightarrow> 'args \<Rightarrow> ('ip, 'sec) Config option" where
  "get_config clap_parse secret_new args =
     (case clap_parse args of Inl _ \<Rightarrow> None | Inr raw \<Rightarrow> Some (from_raw secret_new raw))"

section \<open>Debug output\<close>

definition fmt_option :: "('a \<Rightarrow> string) \<Rightarrow> 'a option \<Rightarrow> string" where
  "fmt_option fmt x = (case x of None \<Rightarrow> ''None'' | Some v \<Rightarrow> ''Some('' @ fmt v @ '')'')"

definition quoted :: "string \<Rightarrow> string" where
  "quoted s = CHR 0x22 # s @ [CHR 0x22]"

definition Config_fmt :: "('ip \<Rightarrow> string) \<Rightarrow> (Path \<Rightarrow> string) \<Rightarrow> ('ip, 'sec) Config \<Rightarrow> string" where
  "Config_fmt ip_fmt path_fmt c =
     (let redacted_password = map_option (\<lambda>_. ''-----'') (config_password c) in
      ''Config { address: '' @ ip_fmt (address c) @
      '', port: '' @ nat_to_string (unat (port c)) @
      '', archive_path: '' @ fmt_option path_fmt (archive_path c) @
      '', auth_password: '' @ fmt_option quoted redacted_password @ '' }'')"

section \<open>The documented options\<close>

text \<open>
  The options as the README lists them, written down apart from the declaration of the arguments:
  the flags of each option, the command lines that give each option at most once, and the text an
  option gets from its flags, its environment variable and its default.
\<close>

definition documented_flags :: "string list list" where
  "documented_flags =
     [[''--address'', ''-a''], [''--port'', ''-p''], [''--archive-path'', ''-r''], [''--auth-password'']]"

definition documented_line :: "(string \<times> string) list \<Rightarrow> bool" where
  "documented_line given \<longleftrightarrow>
     (\<forall>(f, v) \<in> set given. f \<in> set (concat documented_flags) \<and> v \<noteq> [] \<and> hd v \<noteq> CHR ''-'') \<and>
     (\<forall>flags \<in> set documented_flags. length (filter (\<lambda>(f, v). f \<in> set flags) given) \<le> 1)"

definition configured ::
  "(string \<times> string) list \<Rightarrow> (string \<Rightarrow> string option) \<Rightarrow> string list \<Rightarrow> string \<Rightarrow> string option \<Rightarrow> string option"
where
  "configured given env flags var otherwise =
     (case find (\<lambda>(f, v). f \<in> set flags) given of
        Some (f, v) \<Rightarrow> Some v
      | None \<Rightarrow> (case env var of Some v \<Rightarrow> Some v | None \<Rightarrow> otherwise))"

text \<open>The number a port text stands for.\<close>

definition port_number :: "string \<Rightarrow> int \<Rightarrow> bool" where
  "port_number s n \<longleftrightarrow> (\<exists>w. parse_i64 s = Some w \<and> sint w = n) \<and> 1024 \<le> n \<and> n \<le> 65535"

section \<open>Correctness\<close>

lemma port_value_Some: "port_value s = Some p \<Longrightarrow> port_number s (uint p)"
proof -
  assume "port_value s = Some p"
  then obtain w where w: "parse_i64 s = Some w" "1024 \<le> sint w" "sint w \<le> 65535" "p = word_of_int (sint w)"
    by (auto simp: port_value_def simp del: of_int_sint split: option.splits if_splits)
  then have "uint p = sint w" by (simp add: uint_word_of_int del: of_int_sint)
  with w(1-3) show ?thesis by (auto simp: port_number_def)
qed

lemma port_value_None: "port_value s = None \<Longrightarrow> \<not> port_number s n"
  by (auto simp: port_value_def port_number_def split: option.splits if_splits)

text \<open>The declared arguments are the documented options.\<close>

lemma arg_flags_documented:
  "list_all2 (\<lambda>a flags. \<forall>f. arg_flag a f \<longleftrightarrow> f \<in> set flags) RawConfig_args documented_flags"
  by (auto simp: RawConfig_args_def documented_flags_def arg_flag_def)

lemma plain_arguments_documented: "plain_arguments RawConfig_args given \<longleftrightarrow> documented_line given"
proof -
  have "(\<forall>a \<in> set as. length (filter (\<lambda>(f, v). arg_flag a f) given) \<le> 1) \<longleftrightarrow>
      (\<forall>flags \<in> set fss. length (filter (\<lambda>(f, v). f \<in> set flags) given) \<le> 1)"
    and "(\<exists>a \<in> set as. arg_flag a f) \<longleftrightarrow> f \<in> set (concat fss)"
    if "list_all2 (\<lambda>a flags. \<forall>f. arg_flag a f \<longleftrightarrow> f \<in> set flags) as fss" for as fss f
    using that by (induction rule: list_all2_induct) auto
  from this [OF arg_flags_documented] show ?thesis
    by (simp add: plain_arguments_def documented_line_def)
qed

lemma arg_value_documented:
  "arg_value RawConfig_args given env ''address'' =
     configured given env [''--address'', ''-a''] ''ADDRESS'' (Some ''127.0.0.1'')"
  "arg_value RawConfig_args given env ''port'' = configured given env [''--port'', ''-p''] ''PORT'' (Some ''6379'')"
  "arg_value RawConfig_args given env ''archive_path'' =
     configured given env [''--archive-path'', ''-r''] ''ARCHIVE_PATH'' None"
  "arg_value RawConfig_args given env ''auth_password'' =
     configured given env [''--auth-password''] ''AUTH_PASSWORD'' None"
  by (simp_all add: arg_value_def RawConfig_args_def arg_flag_def configured_def disj_commute split: option.split)

lemma configured_default: "\<exists>v. configured given env flags var (Some d) = Some v"
  by (auto simp: configured_def split: option.split)

lemma find_in_set: "find P xs = Some x \<Longrightarrow> x \<in> set xs"
  by (auto simp: find_Some_iff)

lemma configured_nonempty:
  assumes "documented_line given" "\<forall>x. env x \<noteq> Some []"
  shows "configured given env flags var None \<noteq> Some []"
  using assms
  by (auto simp: configured_def documented_line_def split: option.split prod.split dest!: find_in_set)


text \<open>An argument parser for plain command lines.\<close>

fun pair_arguments :: "string list \<Rightarrow> (string \<times> string) list option" where
  "pair_arguments [] = Some []"
| "pair_arguments [f] = None"
| "pair_arguments (f # v # rest) = map_option (Cons (f, v)) (pair_arguments rest)"

definition plain_clap :: "ArgSpec list \<Rightarrow> string list \<Rightarrow> (string \<Rightarrow> string option) \<Rightarrow> string + (string \<Rightarrow> string option)" where
  "plain_clap specs args env =
     (case pair_arguments (tl args) of
        None \<Rightarrow> Inl ''missing value''
      | Some given \<Rightarrow> if plain_arguments specs given then Inr (arg_value specs given env) else Inl ''unexpected argument'')"

lemma pair_arguments_command_line: "pair_arguments (tl (command_line prog given)) = Some given"
  by (induction given) (auto simp: command_line_def)

lemma plain_clap_law: "clap_law plain_clap"
  by (simp add: clap_law_def plain_clap_def pair_arguments_command_line)

text \<open>\<open>Ipv4Addr\<close>: its text is four numbers below 256 without leading zeros.\<close>

definition octet_from :: "string \<Rightarrow> nat option" where
  "octet_from s =
     (if s = [] \<or> 3 < length s \<or> \<not> list_all (\<lambda>c. CHR ''0'' \<le> c \<and> c \<le> CHR ''9'') s \<or> (1 < length s \<and> hd s = CHR ''0'') then None
      else case parse_i64 s of None \<Rightarrow> None | Some n \<Rightarrow> if sint n \<le> 255 then Some (nat (sint n)) else None)"

definition Ipv4_from_str :: "string \<Rightarrow> nat list option" where
  "Ipv4_from_str s =
     (let octets = map octet_from (split_on (CHR ''.'') s) in
      if length octets = 4 \<and> None \<notin> set octets then Some (map the octets) else None)"

definition Ipv4_fmt :: "nat list \<Rightarrow> string" where
  "Ipv4_fmt octets = join_with ''.'' (map nat_to_string octets)"

lemmas config_eval = try_parse_from_def RawConfig_try_parse_from_def plain_clap_def pair_arguments_command_line
  plain_arguments_def arg_value_def arg_flag_def RawConfig_args_def command_line_def from_raw_def path_from_def
  port_value_def octet_from_def Ipv4_from_str_def parse_i64_def parse_magnitude_def digit_value_def size_eval Let_def


end
