(* ===== verification/Servers.thy ===== *)
theory Servers
  imports Connections Configs
begin

text \<open>
  The server (\<open>src/src/server.rs\<close>) and the program (\<open>src/src/main.rs\<close>) as a transition system: the
  accept loop, the connection tasks, the shutdown with its grace period, and the final save, all
  over the one shared store with its clock and sweeper (theory \<open>Sweeper\<close>). A connection task takes
  one step per read, per handled frame and per end, and the steps of all tasks interleave freely.
\<close>

section \<open>Errors\<close>

datatype 'json ServerError =
    ServerIo io_error
  | Archive "'json ArchiveError"
  | InvalidAuthFile
  | UnreadableAuthFile io_error

fun ServerError_fmt :: "(io_error \<Rightarrow> string) \<Rightarrow> 'json ServerError \<Rightarrow> string" where
  "ServerError_fmt io_fmt (ServerIo e) = ''Server IO Error '' @ io_fmt e"
| "ServerError_fmt io_fmt (Archive e) = ''Archive Error '' @ ArchiveError_fmt e"
| "ServerError_fmt io_fmt InvalidAuthFile = ''Password file contains unsupported contents''"
| "ServerError_fmt io_fmt (UnreadableAuthFile e) = ''Unreadable or missing password file - '' @ io_fmt e"

definition ServerError_from_io :: "io_error \<Rightarrow> 'json ServerError" where
  "ServerError_from_io value = ServerIo value"

definition ServerError_from_ArchiveError :: "'json ArchiveError \<Rightarrow> 'json ServerError" where
  "ServerError_from_ArchiveError value = Archive value"

section \<open>Connection tasks\<close>

text \<open>
  The field \<open>received\<close> is a ghost: all bytes that reads of the task have delivered. No step depends on it.
\<close>

record 'sec Task =
  session :: "'sec Session"
  received :: bytes
  frames :: "Frame list"
  halting :: bool
  ended :: bool

definition spawn_connection :: "'sec option \<Rightarrow> 'sec Task" where
  "spawn_connection password =
     \<lparr>session = session_start password Store_new, received = [], frames = [], halting = False, ended = False\<rparr>"

text \<open>
  One step of \<open>Connection::run\<close> in a task, with the shared store at hand. The read buffer is cleared
  before each read, so a read hands the parser just the bytes it delivered. \<open>task_closed\<close> is the end
  of the stream, a read error, or the return after the last frame before a parse error. All commands
  read the clock under the lock of the map, so at the time of their step, except \<open>DEL\<close>, which reads it
  before it waits for the lock.
\<close>

inductive task_step ::
  "(u8 \<Rightarrow> bytes \<Rightarrow> nat option) \<Rightarrow> (bytes \<Rightarrow> bytes \<Rightarrow> bool) \<Rightarrow> ('sec \<Rightarrow> bytes) \<Rightarrow> bool \<Rightarrow> Instant \<Rightarrow>
   'sec Task \<Rightarrow> Store \<Rightarrow> 'sec Task \<Rightarrow> Store \<Rightarrow> bool"
  for mc ct_eq expose cancelled now
where
  task_read: "\<not> ended t \<Longrightarrow> frames t = [] \<Longrightarrow> \<not> halting t \<Longrightarrow> bs \<noteq> [] \<Longrightarrow>
    parse_frames mc (parser (session t)) bs = Some (p, fs, e) \<Longrightarrow>
    task_step mc ct_eq expose cancelled now t s
      (t\<lparr>session := (session t)\<lparr>parser := p\<rparr>, received := received t @ bs, frames := fs, halting := (e \<noteq> None)\<rparr>) s"
| task_read_panic: "\<not> ended t \<Longrightarrow> frames t = [] \<Longrightarrow> \<not> halting t \<Longrightarrow> bs \<noteq> [] \<Longrightarrow>
    parse_frames mc (parser (session t)) bs = None \<Longrightarrow>
    task_step mc ct_eq expose cancelled now t s (t\<lparr>received := received t @ bs, ended := True\<rparr>) s"
| task_closed: "\<not> ended t \<Longrightarrow> frames t = [] \<Longrightarrow>
    task_step mc ct_eq expose cancelled now t s (t\<lparr>ended := True\<rparr>) s"
| task_shutdown: "\<not> ended t \<Longrightarrow> frames t = [] \<Longrightarrow> cancelled \<Longrightarrow>
    task_step mc ct_eq expose cancelled now t s (t\<lparr>ended := True\<rparr>) s"
| task_frame: "\<not> ended t \<Longrightarrow> frames t = f # fs \<Longrightarrow>
    reading = now \<or> reading \<le> now \<and> (\<exists>k. Command_try_from f = Inr (DEL k)) \<Longrightarrow>
    handle_frame ct_eq expose \<lparr>env_clock = (\<lambda>_. reading), env_others = (\<lambda>_ s. s), env_write = (\<lambda>_. io)\<rparr>
      ((session t)\<lparr>store := s\<rparr>) f = (y, exit) \<Longrightarrow>
    task_step mc ct_eq expose cancelled now t s
      (t\<lparr>session := y, frames := fs, ended := (exit \<noteq> None)\<rparr>) (store y)"

section \<open>The server\<close>

text \<open>\<open>Draining\<close> carries the instant at which the grace period of 3 s ends.\<close>

datatype 'json Phase =
    Accepting
  | Draining Instant
  | Aborting
  | Saving
  | Finished "('json ServerError + unit) option"

record ('sec, 'json) Server =
  sys :: Sys
  tasks :: "'sec Task list"
  token :: bool
  phase :: "'json Phase"
  disk :: Disk

definition final_save ::
  "(Path \<Rightarrow> Disk \<Rightarrow> io_error + string list) \<Rightarrow> (Snapshot \<Rightarrow> 'json + bytes) \<Rightarrow> Path option \<Rightarrow> Faults \<Rightarrow>
   (nat \<Rightarrow> Clock) \<Rightarrow> Instant \<Rightarrow> Store \<Rightarrow> Disk \<Rightarrow> ('json ServerError + unit) option \<times> Disk"
where
  "final_save tempfile_in to_vec path faults clk now s d =
     (case path of
        None \<Rightarrow> (Some (Inr ()), d)
      | Some p \<Rightarrow>
          (case save tempfile_in faults to_vec now clk d p s of
             (res, ds) \<Rightarrow> (map_option (map_sum ServerError_from_ArchiveError id) res, last ds)))"

inductive server_step ::
  "(u8 \<Rightarrow> bytes \<Rightarrow> nat option) \<Rightarrow> (bytes \<Rightarrow> bytes \<Rightarrow> bool) \<Rightarrow> ('sec \<Rightarrow> bytes) \<Rightarrow>
   (Path \<Rightarrow> Disk \<Rightarrow> io_error + string list) \<Rightarrow> (Snapshot \<Rightarrow> 'json + bytes) \<Rightarrow> 'sec option \<Rightarrow> Path option \<Rightarrow>
   ('sec, 'json) Server \<Rightarrow> ('sec, 'json) Server \<Rightarrow> bool"
  for mc ct_eq expose tempfile_in to_vec password path
where
  accept: "phase s = Accepting \<Longrightarrow>
    server_step mc ct_eq expose tempfile_in to_vec password path s (s\<lparr>tasks := tasks s @ [spawn_connection password]\<rparr>)"
| connection: "i < length (tasks s) \<Longrightarrow>
    task_step mc ct_eq expose (token s) (clock (sys s)) (tasks s ! i) (shared (sys s)) t st \<Longrightarrow>
    server_step mc ct_eq expose tempfile_in to_vec password path s
      (s\<lparr>sys := (sys s)\<lparr>shared := st\<rparr>, tasks := (tasks s)[i := t]\<rparr>)"
| join: "i < length (tasks s) \<Longrightarrow> ended (tasks s ! i) \<Longrightarrow>
    phase s = Accepting \<or> (\<exists>deadline. phase s = Draining deadline) \<or> phase s = Aborting \<Longrightarrow>
    server_step mc ct_eq expose tempfile_in to_vec password path s
      (s\<lparr>tasks := take i (tasks s) @ drop (Suc i) (tasks s)\<rparr>)"
| cancel: "server_step mc ct_eq expose tempfile_in to_vec password path s (s\<lparr>token := True\<rparr>)"
| stop_accepting: "phase s = Accepting \<Longrightarrow> token s \<Longrightarrow>
    server_step mc ct_eq expose tempfile_in to_vec password path s
      (s\<lparr>phase := Draining (clock (sys s) + duration_from_secs 3)\<rparr>)"
| drained: "phase s = Draining deadline \<Longrightarrow> tasks s = [] \<Longrightarrow>
    server_step mc ct_eq expose tempfile_in to_vec password path s (s\<lparr>phase := Saving\<rparr>)"
| timed_out: "phase s = Draining deadline \<Longrightarrow> deadline \<le> clock (sys s) \<Longrightarrow>
    server_step mc ct_eq expose tempfile_in to_vec password path s (s\<lparr>phase := Aborting\<rparr>)"
| abort_task: "phase s = Aborting \<Longrightarrow> i < length (tasks s) \<Longrightarrow>
    server_step mc ct_eq expose tempfile_in to_vec password path s
      (s\<lparr>tasks := (tasks s)[i := (tasks s ! i)\<lparr>ended := True\<rparr>]\<rparr>)"
| aborted: "phase s = Aborting \<Longrightarrow> tasks s = [] \<Longrightarrow>
    server_step mc ct_eq expose tempfile_in to_vec password path s (s\<lparr>phase := Saving\<rparr>)"
| save_archive: "phase s = Saving \<Longrightarrow> now \<le> clock (sys s) \<Longrightarrow>
    final_save tempfile_in to_vec path faults clk now (shared (sys s)) (disk s) = (res, d) \<Longrightarrow>
    server_step mc ct_eq expose tempfile_in to_vec password path s (s\<lparr>phase := Finished res, disk := d\<rparr>)"
| background: "sweeper_step (sys s) y \<Longrightarrow>
    server_step mc ct_eq expose tempfile_in to_vec password path s (s\<lparr>sys := y\<rparr>)"
| time: "clock (sys s) \<le> now \<Longrightarrow>
    server_step mc ct_eq expose tempfile_in to_vec password path s (s\<lparr>sys := (sys s)\<lparr>clock := now\<rparr>\<rparr>)"

inductive_cases task_stepE: "task_step mc ct_eq expose tok now t s t' s'"
inductive_cases server_stepE: "server_step mc ct_eq expose tempfile_in to_vec password path s t"

text \<open>
  \<open>run_server\<close>: bind, load the archive if there is one, start the accept loop. The result is an
  error, a panic (\<open>None\<close>) or the initial state of the server task.
\<close>

definition server_start :: "Store \<Rightarrow> Instant \<Rightarrow> Disk \<Rightarrow> ('sec, 'json) Server" where
  "server_start st now d =
     \<lparr>sys = \<lparr>shared = st, clock = now, pc = Sweeping\<rparr>, tasks = [], token = False, phase = Accepting, disk = d\<rparr>"

definition run_server ::
  "(bytes \<Rightarrow> 'json + Snapshot) \<Rightarrow> io_error option \<Rightarrow> io_error option \<Rightarrow> Clock \<Rightarrow> (nat \<Rightarrow> Clock) \<Rightarrow> io_error option \<Rightarrow>
   Disk \<Rightarrow> ('ip, 'sec) Config \<Rightarrow> ('json ServerError + ('sec, 'json) Server) option"
where
  "run_server from_slice bind_fault addr_fault now clk read_fault d config =
     (case bind_fault of
        Some e \<Rightarrow> Some (Inl (ServerError_from_io e))
      | None \<Rightarrow>
          (case addr_fault of
             Some e \<Rightarrow> Some (Inl (ServerError_from_io e))
           | None \<Rightarrow>
               map_option (map_sum Archive
                   (\<lambda>st. server_start st (mono now) d))
                 (case archive_path config of
                    Some path \<Rightarrow> load from_slice now clk read_fault d path
                  | None \<Rightarrow> Some (Inr Store_new))))"

definition server_init :: "('sec, 'json) Server \<Rightarrow> bool" where
  "server_init s \<longleftrightarrow> sys_init (sys s) \<and> tasks s = [] \<and> phase s = Accepting \<and> \<not> token s"

section \<open>Invariants\<close>

text \<open>A handled frame is at most one operation on the store.\<close>

lemma outcome_of_store:
  assumes "outcome_of ct ex c s now f = (out, c', s')"
  shows "s' = s \<or> (\<exists>op. s' = snd (run_op s now op))"
proof (cases "Command_try_from f")
  case (Inl e)
  with assms show ?thesis by (cases e) (simp_all add: outcome_of_def)
next
  case (Inr cmd)
  then have s': "s' = s \<or> s' = snd (snd (process_command ct ex c s now cmd))"
    using assms by (auto simp: outcome_of_def split: option.splits prod.splits)
  have "snd (snd (process_command ct ex c s now cmd)) = s \<or>
      (\<exists>op. snd (snd (process_command ct ex c s now cmd)) = snd (run_op s now op))"
  proof (cases cmd)
    case (SET k v)
    then show ?thesis by (auto simp: process_command_def run_op_def intro: exI [of _ "OpSet k v"])
  next
    case (DEL k)
    then show ?thesis by (auto simp: process_command_def run_op_def intro: exI [of _ "OpDel k"])
  next
    case (EXPIRE k n)
    then show ?thesis by (auto simp: process_command_def run_op_def intro: exI [of _ "OpExpire k n"])
  qed (auto simp: process_command_def)
  with s' show ?thesis by auto
qed

lemma handle_frame_store:
  assumes "handle_frame ct ex \<lparr>env_clock = (\<lambda>_. now), env_others = (\<lambda>_ s. s), env_write = (\<lambda>_. io)\<rparr> x f = (y, e)"
  shows "store y = store x \<or> (\<exists>op. store y = snd (run_op (store x) now op))"
proof -
  obtain out c s where o: "outcome_of ct ex (conn x) (store x) now f = (out, c, s)" by (metis prod_cases3)
  then have "store y = s"
    using assms by (auto simp: handle_frame_def Let_def dest: answer_keeps)
  with outcome_of_store [OF o] show ?thesis by simp
qed

lemma del_frame_store:
  assumes "Command_try_from f = Inr (DEL k)"
    and "handle_frame ct ex \<lparr>env_clock = (\<lambda>_. r), env_others = (\<lambda>_ s. s), env_write = (\<lambda>_. io)\<rparr> x f = (y, e)"
  shows "store y = store x \<or> store y = snd (run_op (store x) now (OpDel k))"
proof -
  obtain out c s where o: "outcome_of ct ex (conn x) (store x) r f = (out, c, s)" by (metis prod_cases3)
  then have "store y = s"
    using assms(2) by (auto simp: handle_frame_def Let_def dest: answer_keeps)
  with o assms(1) del_any_reading [of "store x" r k now] show ?thesis
    by (auto simp: outcome_of_def process_command_def run_op_def split: if_splits)
qed

lemma task_step_store:
  "task_step mc ct ex tok now t s t' s' \<Longrightarrow> s' = s \<or> (\<exists>op. s' = snd (run_op s now op))"
proof (induction rule: task_step.induct)
  case (task_frame t f fs reading io s y exit)
  from task_frame.hyps(3) show ?case
  proof
    assume "reading = now"
    with handle_frame_store task_frame.hyps(4) show ?case by fastforce
  next
    assume "reading \<le> now \<and> (\<exists>k. Command_try_from f = Inr (DEL k))"
    then obtain k where "Command_try_from f = Inr (DEL k)" by blast
    from del_frame_store [OF this task_frame.hyps(4), of now] show ?case by auto
  qed
qed simp_all

definition quiet :: "'json Phase \<Rightarrow> bool" where
  "quiet p \<longleftrightarrow> (case p of Saving \<Rightarrow> True | Finished _ \<Rightarrow> True | _ \<Rightarrow> False)"

text \<open>What a finished save guarantees about the file and the store.\<close>

definition archived :: "(Snapshot \<Rightarrow> 'json + bytes) \<Rightarrow> Path option \<Rightarrow> ('sec, 'json) Server \<Rightarrow> bool" where
  "archived to_vec path s \<longleftrightarrow> (\<forall>p. path = Some p \<longrightarrow>
     (\<exists>st now clk snap b. now \<le> clock (sys s) \<and> to_snapshot st now clk = Some snap \<and> to_vec snap = Inr b \<and>
        fs_read None (disk s) p = Inr b \<and>
        (\<forall>t \<ge> clock (sys s). live (shared (sys s)) t = live st t)))"

definition temp_ok :: "(Path \<Rightarrow> Disk \<Rightarrow> io_error + string list) \<Rightarrow> Path option \<Rightarrow> bool" where
  "temp_ok tempfile_in path \<longleftrightarrow> (\<forall>p d. path = Some p \<longrightarrow> names_file p \<and> temp_law tempfile_in d (resolve d p))"

definition phase_ok :: "('sec, 'json) Server \<Rightarrow> bool" where
  "phase_ok s \<longleftrightarrow> (case phase s of
      Accepting \<Rightarrow> True
    | Draining deadline \<Rightarrow> token s \<and> deadline \<le> clock (sys s) + duration_from_secs 3
    | Aborting \<Rightarrow> token s
    | _ \<Rightarrow> token s \<and> tasks s = [])"

definition server_inv ::
  "(Path \<Rightarrow> Disk \<Rightarrow> io_error + string list) \<Rightarrow> (Snapshot \<Rightarrow> 'json + bytes) \<Rightarrow> Path option \<Rightarrow>
   ('sec, 'json) Server \<Rightarrow> bool"
where
  "server_inv tempfile_in to_vec path s \<longleftrightarrow> sys_inv (sys s) \<and> phase_ok s \<and>
     (temp_ok tempfile_in path \<and> phase s = Finished (Some (Inr ())) \<longrightarrow> archived to_vec path s)"

lemma task_step_sys_inv:
  assumes "sys_inv s" "task_step mc ct ex tok (clock s) t (shared s) t' st"
  shows "sys_inv (s\<lparr>shared := st\<rparr>)"
  using task_step_store [OF assms(2)] assms(1) client_inv [OF assms(1)] by auto

lemma map_sum_Inr_iff: "map_sum f g x = Inr y \<longleftrightarrow> (\<exists>z. x = Inr z \<and> y = g z)"
  by (cases x) auto

lemma final_save_archived:
  assumes "temp_ok tempfile_in path" and "now \<le> clock (sys s)"
    and "final_save tempfile_in to_vec path faults clk now (shared (sys s)) (disk s) = (Some (Inr ()), d)"
  shows "archived to_vec path (s\<lparr>phase := x, disk := d\<rparr>)"
proof (cases path)
  case None
  then show ?thesis by (simp add: archived_def)
next
  case (Some p)
  let ?d = "disk s"
  from assms(1) Some have tl: "names_file p" "temp_law tempfile_in ?d (resolve ?d p)"
    by (auto simp: temp_ok_def)
  obtain res ds where sv: "save tempfile_in faults to_vec now clk ?d p (shared (sys s)) = (res, ds)"
    by fastforce
  with assms(3) Some have r: "res = Some (Inr ())" "d = last ds"
    by (auto simp: final_save_def map_sum_Inr_iff)
  with sv obtain snap b where b: "to_snapshot (shared (sys s)) now clk = Some snap" "to_vec snap = Inr b"
    "save_bytes tempfile_in faults ?d p b = (Inr (), ds)"
    by (auto simp: save_def dump_def map_sum_def apfst_def map_prod_def split: option.splits sum.splits prod.splits)
  note ok = save_bytes_success [OF tl(2) b(3) tl(1)]
  have "resolve d p = resolve ?d p" using ok(5) r(2) by (simp add: resolve_def)
  with ok(1,3,4) r(2) tl(1) have "fs_read None d p = Inr b"
    by (simp add: fs_read_def path_is_empty_def names_file_def)
  with b(1,2) Some assms(2) show ?thesis by (auto simp: archived_def)
qed

lemma archived_later:
  assumes "archived to_vec path s" "disk s' = disk s" "clock (sys s) \<le> clock (sys s')"
    and "\<And>t. clock (sys s') \<le> t \<Longrightarrow> live (shared (sys s')) t = live (shared (sys s)) t"
  shows "archived to_vec path s'"
proof -
  have "live (shared (sys s')) t = live st t"
    if "\<forall>t \<ge> clock (sys s). live (shared (sys s)) t = live st t" "clock (sys s') \<le> t" for st t
    using that by (simp add: assms(4) order_trans [OF assms(3)])
  note later = this
  show ?thesis
    unfolding archived_def
  proof (intro allI impI)
    fix p assume "path = Some p"
    with assms(1) obtain st now clk snap b where "now \<le> clock (sys s)" "to_snapshot st now clk = Some snap"
      "to_vec snap = Inr b" "fs_read None (disk s) p = Inr b"
      and st: "\<forall>t \<ge> clock (sys s). live (shared (sys s)) t = live st t"
      unfolding archived_def by blast
    with assms(2,3) later [OF st] show "\<exists>st now clk snap b. now \<le> clock (sys s') \<and>
        to_snapshot st now clk = Some snap \<and> to_vec snap = Inr b \<and> fs_read None (disk s') p = Inr b \<and>
        (\<forall>t \<ge> clock (sys s'). live (shared (sys s')) t = live st t)"
      by (metis order_trans)
  qed
qed

lemma server_step_phase_ok:
  "server_step mc ct ex tempfile_in to_vec password path s s' \<Longrightarrow> phase_ok s \<Longrightarrow> phase_ok s'"
proof (induction rule: server_step.induct)
  case (background s y)
  then show ?case using sweeper_clock [of "sys s" y] by (auto simp: phase_ok_def split: Phase.splits)
qed (auto simp: phase_ok_def split: Phase.splits)

lemma server_step_sys_inv:
  "server_step mc ct ex tempfile_in to_vec password path s s' \<Longrightarrow> sys_inv (sys s) \<Longrightarrow> sys_inv (sys s')"
  by (induction rule: server_step.induct) (auto intro: task_step_sys_inv sweeper_inv tick_inv)

text \<open>Once the server saves or has finished, no step of anything changes what the store shows.\<close>

lemma quiet_transparent:
  assumes "server_step mc ct ex tempfile_in to_vec password path s s'"
    and "sys_inv (sys s)" "phase_ok s" "quiet (phase s)" "clock (sys s') \<le> t"
  shows "live (shared (sys s')) t = live (shared (sys s)) t"
  using assms
proof (induction rule: server_step.induct)
  case (connection i s u st)
  then have "tasks s = []" by (auto simp: phase_ok_def quiet_def split: Phase.splits)
  with connection show ?case by simp
next
  case (background s y)
  then show ?case using sweeper_transparent [of "sys s" y t] sweeper_clock [of "sys s" y] by simp
qed simp_all

lemma server_step_clock:
  "server_step mc ct ex tempfile_in to_vec password path s s' \<Longrightarrow> clock (sys s) \<le> clock (sys s')"
  by (induction rule: server_step.induct) (auto dest: sweeper_clock)

lemma finished_step:
  "server_step mc ct ex tempfile_in to_vec password path s s' \<Longrightarrow> phase s' = Finished r \<Longrightarrow>
     phase s = Finished r \<and> disk s' = disk s \<or>
     (\<exists>faults clk now d. now \<le> clock (sys s) \<and> final_save tempfile_in to_vec path faults clk now (shared (sys s)) (disk s) = (r, d) \<and>
        s' = s\<lparr>phase := Finished r, disk := d\<rparr>)"
  by (induction rule: server_step.induct) auto

lemma server_step_inv:
  assumes "server_inv tempfile_in to_vec path s" "server_step mc ct ex tempfile_in to_vec password path s s'"
  shows "server_inv tempfile_in to_vec path s'"
proof -
  have inv: "sys_inv (sys s)" "phase_ok s" using assms(1) by (auto simp: server_inv_def)
  have "archived to_vec path s'" if ok: "temp_ok tempfile_in path" and fin: "phase s' = Finished (Some (Inr ()))"
    using finished_step [OF assms(2) fin]
  proof (elim disjE exE conjE)
    assume f: "phase s = Finished (Some (Inr ()))" "disk s' = disk s"
    then have "archived to_vec path s" using assms(1) ok by (simp add: server_inv_def)
    then show ?thesis
      using f(2) server_step_clock [OF assms(2)]
    proof (rule archived_later)
      fix t assume "clock (sys s') \<le> t"
      with quiet_transparent [OF assms(2) inv] f(1) show "live (shared (sys s')) t = live (shared (sys s)) t"
        by (simp add: quiet_def)
    qed
  next
    fix faults clk now d
    assume "now \<le> clock (sys s)" and "final_save tempfile_in to_vec path faults clk now (shared (sys s)) (disk s) = (Some (Inr ()), d)"
      and "s' = s\<lparr>phase := Finished (Some (Inr ())), disk := d\<rparr>"
    with final_save_archived [OF ok] show ?thesis by simp
  qed
  with server_step_sys_inv [OF assms(2) inv(1)] server_step_phase_ok [OF assms(2) inv(2)] show ?thesis
    by (simp add: server_inv_def)
qed

interpretation srv: inductive_invariant server_init "server_step mc ct ex tempfile_in to_vec password path"
  "server_inv tempfile_in to_vec path"
  for mc ct ex tempfile_in to_vec password path
proof
  fix s :: "('a, 'b) Server" assume "server_init s"
  then show "server_inv tempfile_in to_vec path s"
    using sw.inv_reach [OF reach_init] by (auto simp: server_init_def server_inv_def phase_ok_def)
qed (rule server_step_inv)

section \<open>Access without the password\<close>

text \<open>No frame that waits to be handled is an \<open>AUTH\<close> with the right password.\<close>

definition no_valid_auth :: "(bytes \<Rightarrow> bytes \<Rightarrow> bool) \<Rightarrow> ('sec \<Rightarrow> bytes) \<Rightarrow> 'sec \<Rightarrow> 'sec Task \<Rightarrow> bool" where
  "no_valid_auth ct_eq expose sec t \<longleftrightarrow>
     (\<forall>f \<in> set (frames t). \<forall>pw. Command_try_from f = Inr (AUTH pw) \<longrightarrow> \<not> ct_eq (expose sec) pw)"

definition locked_out :: "'sec \<Rightarrow> 'sec Task \<Rightarrow> bool" where
  "locked_out sec t \<longleftrightarrow> auth_password (conn (session t)) = Some sec \<and> \<not> authenticated (conn (session t))"

lemma locked_out_spawn: "locked_out sec (spawn_connection (Some sec))"
  by (simp add: locked_out_def spawn_connection_def session_start_def Connection_new_def)

lemma task_step_locked_out:
  assumes "task_step mc ct ex tok now t s t' s'" "locked_out sec t" "no_valid_auth ct ex sec t"
  shows "s' = s \<and> locked_out sec t'"
  using assms
proof (induction rule: task_step.induct)
  case (task_frame t f fs reading io s y exit)
  let ?env = "\<lparr>env_clock = (\<lambda>_. reading), env_others = (\<lambda>_ s. s), env_write = (\<lambda>_. io)\<rparr> :: Env"
  have pre: "auth_password (conn ((session t)\<lparr>store := s\<rparr>)) = Some sec"
    "\<not> authenticated (conn ((session t)\<lparr>store := s\<rparr>))"
    "\<forall>pw. Command_try_from f = Inr (AUTH pw) \<longrightarrow> \<not> ct (ex sec) pw"
    using task_frame by (simp_all add: locked_out_def no_valid_auth_def)
  note step = handle_frame_unauthenticated [OF pre task_frame.hyps(4)]
  have "y = y\<lparr>store := s\<rparr>" using step(2) [of ?env s] task_frame.hyps(4) by simp
  then have "store y = s" by (metis Session.select_convs(2) Session.surjective Session.update_convs(2))
  with step(1) show ?case by (simp add: locked_out_def)
qed (simp_all add: locked_out_def)

lemma server_step_locked_out:
  assumes "server_step mc ct ex tempfile_in to_vec (Some sec) path s s'" "sys_inv (sys s)"
    and "\<forall>t \<in> set (tasks s). locked_out sec t" "\<forall>t \<in> set (tasks s). no_valid_auth ct ex sec t"
  shows "(\<forall>t \<in> set (tasks s'). locked_out sec t) \<and>
    (\<forall>u \<ge> clock (sys s'). live (shared (sys s')) u = live (shared (sys s)) u)"
  using assms
proof (induction rule: server_step.induct)
  case (connection i s t st)
  then have "st = shared (sys s) \<and> locked_out sec t" by (intro task_step_locked_out) auto
  with connection show ?case by (auto dest: set_update_subset_insert [THEN subsetD])
next
  case (background s y)
  then show ?case using sweeper_transparent [of "sys s" y] sweeper_clock [of "sys s" y] by simp
next
  case (join i s)
  then show ?case by (auto dest: in_set_takeD in_set_dropD)
next
  case (abort_task s i)
  then show ?case by (auto simp: locked_out_def dest!: set_update_subset_insert [THEN subsetD])
qed (auto simp: locked_out_spawn)

text \<open>
  C3. Without the password nobody changes the data: in every execution of the server with a password,
  with any number of connections, reads, sweeps and shutdown in any interleaving, in which no frame
  waiting to be handled is an \<open>AUTH\<close> with the right password, what the store shows from then on is what
  it showed from the start, and no connection is authenticated.
\<close>

theorem no_password_no_change:
  assumes "server_init s0"
    and "(\<lambda>s s'. server_step mc ct_eq expose tempfile_in to_vec (Some sec) path s s' \<and>
            (\<forall>t \<in> set (tasks s). no_valid_auth ct_eq expose sec t))\<^sup>*\<^sup>* s0 s"
  shows "(\<forall>u \<ge> clock (sys s). live (shared (sys s)) u = live (shared (sys s0)) u) \<and>
    (\<forall>t \<in> set (tasks s). \<not> is_authorized (conn (session t)))"
proof -
  have "sys_inv (sys s) \<and> clock (sys s0) \<le> clock (sys s) \<and> (\<forall>t \<in> set (tasks s). locked_out sec t) \<and>
      (\<forall>u \<ge> clock (sys s). live (shared (sys s)) u = live (shared (sys s0)) u)"
    using assms(2)
  proof (induction rule: rtranclp_induct)
    case base
    then show ?case using assms(1) sw.inv_reach [OF reach_init] by (auto simp: server_init_def)
  next
    case (step s s')
    then have s: "server_step mc ct_eq expose tempfile_in to_vec (Some sec) path s s'" by simp
    have "sys_inv (sys s')" "clock (sys s) \<le> clock (sys s')"
      using step.IH server_step_sys_inv [OF s] server_step_clock [OF s] by auto
    with step server_step_locked_out [OF s] show ?case by fastforce
  qed
  then show ?thesis by (auto simp: locked_out_def is_authorized_def)
qed

section \<open>Shutdown\<close>

text \<open>Steps in which no client is accepted or served.\<close>

definition own_step ::
  "(u8 \<Rightarrow> bytes \<Rightarrow> nat option) \<Rightarrow> (bytes \<Rightarrow> bytes \<Rightarrow> bool) \<Rightarrow> ('sec \<Rightarrow> bytes) \<Rightarrow>
   (Path \<Rightarrow> Disk \<Rightarrow> io_error + string list) \<Rightarrow> (Snapshot \<Rightarrow> 'json + bytes) \<Rightarrow> 'sec option \<Rightarrow> Path option \<Rightarrow>
   ('sec, 'json) Server \<Rightarrow> ('sec, 'json) Server \<Rightarrow> bool"
where
  "own_step mc ct_eq expose tempfile_in to_vec password path s s' \<longleftrightarrow>
     server_step mc ct_eq expose tempfile_in to_vec password path s s' \<and>
     shared (sys s') = shared (sys s) \<and> length (tasks s') \<le> length (tasks s)"

abbreviation finishes ::
  "(u8 \<Rightarrow> bytes \<Rightarrow> nat option) \<Rightarrow> (bytes \<Rightarrow> bytes \<Rightarrow> bool) \<Rightarrow> ('sec \<Rightarrow> bytes) \<Rightarrow>
   (Path \<Rightarrow> Disk \<Rightarrow> io_error + string list) \<Rightarrow> (Snapshot \<Rightarrow> 'json + bytes) \<Rightarrow> 'sec option \<Rightarrow> Path option \<Rightarrow>
   ('sec, 'json) Server \<Rightarrow> Instant \<Rightarrow> bool"
where
  "finishes mc ct_eq expose tempfile_in to_vec password path s limit \<equiv>
     \<exists>s' r. (own_step mc ct_eq expose tempfile_in to_vec password path)\<^sup>*\<^sup>* s s' \<and> phase s' = Finished r \<and>
       clock (sys s') \<le> limit"

lemma finishes_step:
  assumes "server_step mc ct ex tf tv pw path s s'" "finishes mc ct ex tf tv pw path s' limit"
    and "shared (sys s') = shared (sys s)" "length (tasks s') \<le> length (tasks s)"
  shows "finishes mc ct ex tf tv pw path s limit"
  using assms by (meson converse_rtranclp_into_rtranclp own_step_def)

lemma saving_finishes:
  assumes "phase s = Saving" "clock (sys s) \<le> limit"
  shows "finishes mc ct ex tf tv pw path s limit"
proof -
  fix faults clk
  obtain r d where "final_save tf tv path faults clk (clock (sys s)) (shared (sys s)) (disk s) = (r, d)" by fastforce
  from save_archive [OF assms(1) order_refl this, where mc = mc and ct_eq = ct and expose = ex and password = pw]
  have step: "server_step mc ct ex tf tv pw path s (s\<lparr>phase := Finished r, disk := d\<rparr>)" .
  have "finishes mc ct ex tf tv pw path (s\<lparr>phase := Finished r, disk := d\<rparr>) limit"
    using assms(2) by (intro exI [of _ "s\<lparr>phase := Finished r, disk := d\<rparr>"]) simp
  from finishes_step [OF step this] show ?thesis by simp
qed

lemma aborting_finishes:
  assumes "phase s = Aborting" "clock (sys s) \<le> limit"
  shows "finishes mc ct ex tf tv pw path s limit"
  using assms
proof (induction "length (tasks s)" arbitrary: s)
  case 0
  then have "server_step mc ct ex tf tv pw path s (s\<lparr>phase := Saving\<rparr>)" by (intro aborted) simp_all
  from finishes_step [OF this saving_finishes] 0 show ?case by simp
next
  case (Suc n)
  then have ne: "tasks s \<noteq> []" by auto
  let ?u = "s\<lparr>tasks := (tasks s)[0 := (tasks s ! 0)\<lparr>ended := True\<rparr>]\<rparr>"
  let ?w = "?u\<lparr>tasks := take 0 (tasks ?u) @ drop (Suc 0) (tasks ?u)\<rparr>"
  have u: "server_step mc ct ex tf tv pw path s ?u" using Suc ne by (intro abort_task) simp_all
  have w: "server_step mc ct ex tf tv pw path ?u ?w" using Suc ne by (intro join) simp_all
  have "finishes mc ct ex tf tv pw path ?w limit" using Suc by (intro Suc.hyps(1)) simp_all
  from finishes_step [OF w this] have "finishes mc ct ex tf tv pw path ?u limit" by simp
  from finishes_step [OF u this] show ?case by simp
qed

lemma draining_finishes:
  assumes "phase s = Draining deadline" "deadline \<le> limit" "clock (sys s) \<le> limit"
  shows "finishes mc ct ex tf tv pw path s limit"
proof -
  let ?u = "s\<lparr>sys := (sys s)\<lparr>clock := max (clock (sys s)) deadline\<rparr>\<rparr>"
  have u: "server_step mc ct ex tf tv pw path s ?u" by (rule time) simp
  have w: "server_step mc ct ex tf tv pw path ?u (?u\<lparr>phase := Aborting\<rparr>)"
    using assms(1) by (intro timed_out [of ?u deadline]) simp_all
  have "finishes mc ct ex tf tv pw path (?u\<lparr>phase := Aborting\<rparr>) limit"
    using assms by (intro aborting_finishes) simp_all
  from finishes_step [OF w this] have "finishes mc ct ex tf tv pw path ?u limit" by simp
  from finishes_step [OF u this] show ?thesis by simp
qed

section \<open>Correctness of the server\<close>

text \<open>
  C34. Nothing acknowledged is lost on shutdown: in every reachable state in which the server has
  finished without an error and has an archive, all connections have ended and the archive holds
  the serialized snapshot, taken at a time already past, of a store that shows, from then on, exactly what the shared store shows,
  whatever clients and sweeper did before, during the grace period or during the save.
\<close>

theorem shutdown_archives_store:
  assumes "temp_ok tempfile_in (Some p)"
    and "reach server_init (server_step mc ct_eq expose tempfile_in to_vec password (Some p)) s"
    and "phase s = Finished (Some (Inr ()))"
  shows "tasks s = [] \<and> (\<exists>st now clk snap b. now \<le> clock (sys s) \<and> to_snapshot st now clk = Some snap \<and> to_vec snap = Inr b \<and>
    fs_read None (disk s) p = Inr b \<and>
    (\<forall>t \<ge> clock (sys s). live (shared (sys s)) t = live st t))"
  using srv.inv_reach [OF assms(2)] assms(1,3) by (auto simp: server_inv_def phase_ok_def archived_def)

text \<open>
  C35. Shutdown is final: once the accept loop has stopped, no step adds a connection or returns to
  accepting, and once the save has begun no step of anything changes what a client could read.
\<close>

theorem shutdown_final:
  assumes "reach server_init (server_step mc ct_eq expose tempfile_in to_vec password path) s"
    and "server_step mc ct_eq expose tempfile_in to_vec password path s s'" and "phase s \<noteq> Accepting"
  shows "phase s' \<noteq> Accepting \<and> length (tasks s') \<le> length (tasks s) \<and>
    (phase s = Saving \<or> (\<exists>r. phase s = Finished r) \<longrightarrow>
      (\<forall>t \<ge> clock (sys s'). live (shared (sys s')) t = live (shared (sys s)) t))"
proof (intro conjI impI allI)
  have inv: "sys_inv (sys s)" "phase_ok s"
    using srv.inv_reach [OF assms(1)] by (auto simp: server_inv_def)
  show "phase s' \<noteq> Accepting" using assms(2,3) by (auto elim: server_stepE)
  show "length (tasks s') \<le> length (tasks s)" using assms(2,3) by (auto elim: server_stepE)
  fix t assume "phase s = Saving \<or> (\<exists>r. phase s = Finished r)" "clock (sys s') \<le> t"
  with quiet_transparent [OF assms(2) inv, of t] show "live (shared (sys s')) t = live (shared (sys s)) t"
    by (auto simp: quiet_def)
qed

text \<open>
  C36. Shutdown completes: from every reachable state in which shutdown was requested the server can
  finish by steps of its own in which no client is accepted or served, within 3 s on the clock, however
  many connections are open and whatever they are doing.
\<close>

theorem shutdown_completes:
  assumes "reach server_init (server_step mc ct_eq expose tempfile_in to_vec password path) s" and "token s"
  shows "\<exists>s' r. (own_step mc ct_eq expose tempfile_in to_vec password path)\<^sup>*\<^sup>* s s' \<and> phase s' = Finished r \<and>
    clock (sys s') \<le> clock (sys s) + 3 * 10 ^ 9"
proof -
  have ok: "phase_ok s" using srv.inv_reach [OF assms(1)] by (simp add: server_inv_def)
  have three: "duration_from_secs 3 = 3 * 10 ^ 9" by (simp add: duration_from_secs_def)
  show ?thesis
  proof (cases "phase s")
    case Accepting
    have "finishes mc ct_eq expose tempfile_in to_vec password path
        (s\<lparr>phase := Draining (clock (sys s) + duration_from_secs 3)\<rparr>) (clock (sys s) + 3 * 10 ^ 9)"
      by (rule draining_finishes) (auto simp: three)
    from finishes_step [OF stop_accepting [OF Accepting assms(2)] this] show ?thesis by simp
  next
    case (Draining deadline)
    then show ?thesis using ok by (intro draining_finishes) (auto simp: phase_ok_def three)
  next
    case Aborting
    then show ?thesis by (intro aborting_finishes) simp_all
  next
    case Saving
    then show ?thesis by (intro saving_finishes) simp_all
  qed auto
qed

text \<open>
  C37. The sweeper keeps up with a running server: in every reachable state of the server, with any
  number of connections at any point of their work, an expired value in the map means that the
  sweeper has a step to take.
\<close>

theorem server_expired_swept:
  assumes "reach server_init (server_step mc ct_eq expose tempfile_in to_vec password path) s"
    and "hm_get k (hashmap (shared (sys s))) = Some v" and "is_expired v (clock (sys s))"
  shows "\<exists>s'. server_step mc ct_eq expose tempfile_in to_vec password path s s' \<and> sweeper_step (sys s) (sys s')"
proof -
  have inv: "sys_inv (sys s)" using srv.inv_reach [OF assms(1)] by (simp add: server_inv_def)
  have "\<exists>u. sweeper_step (sys s) u"
    using sweeper_enabled [OF inv] assms(2,3) by (auto simp: swept_def)
  then obtain u where "sweeper_step (sys s) u" ..
  then show ?thesis using background by fastforce
qed

section \<open>Starting\<close>

lemma load_ok:
  assumes "load from_slice now clk fault d path = Some (Inr s)"
  shows "store_ok s"
proof -
  have "s = Store_new \<or> (\<exists>snap. from_snapshot now clk snap = Some (Inr s))"
    using assms
    by (auto simp: load_def restore_def map_sum_Inr_iff split: sum.splits if_splits option.splits)
  then show ?thesis using from_snapshot_ok by auto
qed

lemma server_start_init: "store_ok st \<Longrightarrow> server_init (server_start st now d)"
  by (simp add: server_start_def server_init_def sys_init_def)

lemma run_server_Inr:
  assumes "run_server from_slice bind_fault addr_fault now clk read_fault d config = Some (Inr s)"
  shows "server_init s"
  using assms load_ok
  by (auto simp: run_server_def map_sum_Inr_iff intro!: server_start_init split: option.splits)

text \<open>
  A server that starts, starts in an initial state: its store satisfies the invariant of the
  sweeper, it is empty without an archive and otherwise the one that was loaded; and the errors of
  starting are those of the socket and of the archive.
\<close>

lemma run_server_starts:
  "case run_server from_slice bind_fault addr_fault now clk read_fault d config of
     None \<Rightarrow> \<exists>p. archive_path config = Some p \<and> load from_slice now clk read_fault d p = None
   | Some (Inl e) \<Rightarrow> (\<exists>io. e = ServerIo io \<and> (bind_fault = Some io \<or> addr_fault = Some io)) \<or>
       (\<exists>a p. e = Archive a \<and> archive_path config = Some p \<and> load from_slice now clk read_fault d p = Some (Inl a))
   | Some (Inr s) \<Rightarrow> server_init s \<and> disk s = d \<and> clock (sys s) = mono now \<and>
       (case archive_path config of
          None \<Rightarrow> shared (sys s) = Store_new
        | Some p \<Rightarrow> load from_slice now clk read_fault d p = Some (Inr (shared (sys s))))"
proof (cases "bind_fault = None \<and> addr_fault = None")
  case False
  then show ?thesis by (auto simp: run_server_def ServerError_from_io_def split: option.split)
next
  case True
  define st where "st = (case archive_path config of
      Some path \<Rightarrow> load from_slice now clk read_fault d path | None \<Rightarrow> Some (Inr Store_new))"
  have run: "run_server from_slice bind_fault addr_fault now clk read_fault d config =
      map_option (map_sum Archive (\<lambda>st. server_start st (mono now) d)) st"
    using True by (simp add: run_server_def st_def)
  consider "st = None" | a where "st = Some (Inl a)" | x where "st = Some (Inr x)"
    by (metis not_Some_eq sum.exhaust)
  then show ?thesis
  proof cases
    case (3 x)
    then have "store_ok x" using load_ok by (auto simp: st_def split: option.splits)
    with 3 show ?thesis unfolding run
      by (auto simp: server_init_def sys_init_def st_def server_start_def split: option.splits)
  qed (unfold run, auto simp: st_def split: option.splits)
qed

section \<open>The program\<close>

datatype Signal = CtrlC "io_error option" | SigTerm

text \<open>
  \<open>wait_for_shutdown_signal\<close> on Unix: registering for \<open>SIGTERM\<close> may fail; after that either signal,
  or a failure of waiting for Ctrl-C, whose result is dropped, ends the wait. On other systems the
  result of waiting for Ctrl-C is returned.
\<close>

definition wait_for_shutdown_signal :: "io_error option \<Rightarrow> Signal \<Rightarrow> io_error option" where
  "wait_for_shutdown_signal register event =
     (case register of Some e \<Rightarrow> Some e | None \<Rightarrow> (case event of CtrlC _ \<Rightarrow> None | SigTerm \<Rightarrow> None))"

definition wait_for_ctrl_c :: "io_error option \<Rightarrow> io_error option" where
  "wait_for_ctrl_c result = result"

datatype 'json MainError = MainSubscriber | MainServer "'json ServerError" | MainIo io_error | MainJoin

text \<open>
  \<open>main\<close>: install the log subscriber, which fails if there is one, get the configuration, which ends the
  process (\<open>None\<close>) on wrong arguments, start the server, wait for a signal, cancel, wait for the server
  task, whose panic (\<open>None\<close> in \<open>handle\<close>) becomes an error.
\<close>

definition main ::
  "bool \<Rightarrow> ('ip, 'sec) Config option \<Rightarrow> (('ip, 'sec) Config \<Rightarrow> ('json ServerError + ('sec, 'json) Server) option) \<Rightarrow>
   io_error option \<Rightarrow> ('json ServerError + unit) option \<Rightarrow> ('json MainError + unit) option"
where
  "main subscriber_set config start signal handle =
     (if subscriber_set then Some (Inl MainSubscriber)
      else case config of
        None \<Rightarrow> None
      | Some c \<Rightarrow>
          (case start c of
             None \<Rightarrow> None
           | Some (Inl e) \<Rightarrow> Some (Inl (MainServer e))
           | Some (Inr _) \<Rightarrow>
               (case signal of
                  Some e \<Rightarrow> Some (Inl (MainIo e))
                | None \<Rightarrow>
                    (case handle of
                       None \<Rightarrow> Some (Inl MainJoin)
                     | Some (Inl e) \<Rightarrow> Some (Inl (MainServer e))
                     | Some (Inr _) \<Rightarrow> Some (Inr ())))))"

section \<open>Witnesses\<close>

definition fresh_temp :: "Path \<Rightarrow> Disk \<Rightarrow> io_error + string list" where
  "fresh_temp p d = (if current d [''srv'', ''archive.1.tmp''] = None \<and> \<not> dirs d [''srv'', ''archive.1.tmp'']
     then Inr [''srv'', ''archive.1.tmp''] else Inl (OtherIo 17))"

definition db_path :: Path where
  "db_path = \<lparr>absolute = True, comps = [''srv'', ''db'']\<rparr>"

definition idle_server :: "Store \<Rightarrow> Instant \<Rightarrow> (bytes, string) Server" where
  "idle_server st now = \<lparr>sys = \<lparr>shared = st, clock = now, pc = Sweeping\<rparr>, tasks = [], token = False,
     phase = Accepting, disk = disk_with None\<rparr>"

lemma temp_ok_fresh: "temp_ok fresh_temp (Some db_path)"
  by (simp add: temp_ok_def temp_law_def fresh_temp_def db_path_def resolve_def names_file_def)

lemma reach_idle: "store_ok st \<Longrightarrow> reach server_init R (idle_server st now)"
  by (rule reach_init) (simp add: server_init_def idle_server_def sys_init_def)

lemma idle_steps:
  "server_step mc ct ex tf tv pw path (idle_server st now) (idle_server st now\<lparr>token := True\<rparr>)"
  "server_step mc ct ex tf tv pw path (idle_server st now\<lparr>token := True\<rparr>)
     (idle_server st now\<lparr>token := True, phase := Draining (now + duration_from_secs 3)\<rparr>)"
  "server_step mc ct ex tf tv pw path
     (idle_server st now\<lparr>token := True, phase := Draining (now + duration_from_secs 3)\<rparr>)
     (idle_server st now\<lparr>token := True, phase := Saving\<rparr>)"
  using stop_accepting [of "idle_server st now\<lparr>token := True\<rparr>"]
    drained [of "idle_server st now\<lparr>token := True, phase := Draining (now + duration_from_secs 3)\<rparr>"
        "now + duration_from_secs 3"]
  by (simp_all add: idle_server_def cancel [of mc ct ex tf tv pw path "idle_server st now", unfolded idle_server_def, simplified])

lemma reach_cancelled:
  "store_ok st \<Longrightarrow> reach server_init (server_step mc ct ex tf tv pw path) (idle_server st now\<lparr>token := True\<rparr>)"
  by (rule reach_step, rule reach_idle, assumption, rule idle_steps(1))

lemma reach_draining:
  "store_ok st \<Longrightarrow> reach server_init (server_step mc ct ex tf tv pw path)
     (idle_server st now\<lparr>token := True, phase := Draining (now + duration_from_secs 3)\<rparr>)"
  by (rule reach_step, rule reach_cancelled, assumption, rule idle_steps(2))

lemma idle_save:
  "final_save fresh_temp json_to_vec (Some db_path) no_faults (\<lambda>_. \<lparr>sys_time = Some 0, mono = 0\<rparr>) 0 Store_new (disk_with None) =
     (Some (Inr ()), snd (final_save fresh_temp json_to_vec (Some db_path) no_faults (\<lambda>_. \<lparr>sys_time = Some 0, mono = 0\<rparr>) 0
        Store_new (disk_with None)))"
  by (simp add: final_save_def db_path_def json_to_vec_def fresh_temp_def save_def dump_def to_snapshot_def Store_new_def
      from_parts_def hm_iter_def hm_new_def save_bytes_def fs_eval)

abbreviation finished_server :: "(bytes, string) Server" where
  "finished_server \<equiv> idle_server Store_new 0\<lparr>token := True, phase := Finished (Some (Inr ())),
     disk := snd (final_save fresh_temp json_to_vec (Some db_path) no_faults (\<lambda>_. \<lparr>sys_time = Some 0, mono = 0\<rparr>) 0
       Store_new (disk_with None))\<rparr>"

lemma three_steps: "R a b \<Longrightarrow> R b c \<Longrightarrow> R c d \<Longrightarrow> R\<^sup>*\<^sup>* a d"
  by (meson rtranclp.rtrancl_into_rtrancl rtranclp.rtrancl_refl)

lemma last_step:
  "server_step index_of (=) id fresh_temp json_to_vec None (Some db_path)
     (idle_server Store_new 0\<lparr>token := True, phase := Saving\<rparr>) finished_server"
  using save_archive [of "idle_server Store_new 0\<lparr>token := True, phase := Saving\<rparr>" 0 fresh_temp json_to_vec
      "Some db_path" no_faults "\<lambda>_. \<lparr>sys_time = Some 0, mono = 0\<rparr>"] idle_save
  by (simp add: idle_server_def)

lemma finished_steps:
  "(server_step index_of (=) id fresh_temp json_to_vec None (Some db_path))\<^sup>*\<^sup>* (idle_server Store_new 0) finished_server"
  using three_steps [of "server_step index_of (=) id fresh_temp json_to_vec None (Some db_path)", OF idle_steps] last_step by (rule rtranclp.rtrancl_into_rtrancl)

lemma reach_steps: "step\<^sup>*\<^sup>* s t \<Longrightarrow> reach init step s \<Longrightarrow> reach init step t"
  by (induction rule: rtranclp_induct) (auto intro: reach_step)

lemma reach_finished:
  "reach server_init (server_step index_of (=) id fresh_temp json_to_vec None (Some db_path)) finished_server"
  by (rule reach_steps [OF finished_steps reach_idle [OF store_ok_new]])

theorem shutdown_archives_store_witness:
  "\<exists>st now clk snap b. now \<le> 0 \<and> to_snapshot st now clk = Some snap \<and> json_to_vec snap = Inr b \<and>
     fs_read None (snd (final_save fresh_temp json_to_vec (Some db_path) no_faults
       (\<lambda>_. \<lparr>sys_time = Some 0, mono = 0\<rparr>) 0 Store_new (disk_with None))) db_path = Inr b \<and>
     (\<forall>t. live Store_new t = live st t)"
  using shutdown_archives_store [OF temp_ok_fresh reach_finished] by (simp add: idle_server_def)

theorem shutdown_final_witness:
  "length (tasks (idle_server Store_new 0\<lparr>token := True, phase := Saving\<rparr>)) \<le>
   length (tasks (idle_server Store_new 0\<lparr>token := True, phase := Draining (0 + duration_from_secs 3)\<rparr>))"
proof -
  let ?s = "idle_server Store_new 0\<lparr>token := True, phase := Draining (0 + duration_from_secs 3)\<rparr>"
  have "server_step index_of (=) id fresh_temp json_to_vec None None ?s (?s\<lparr>phase := Saving\<rparr>)"
    by (rule drained) (simp_all add: idle_server_def)
  from shutdown_final [OF reach_draining [OF store_ok_new] this] show ?thesis by simp
qed

theorem shutdown_completes_witness:
  "\<exists>s' r. (own_step index_of (=) id fresh_temp json_to_vec None (Some db_path))\<^sup>*\<^sup>* (idle_server Store_new 0\<lparr>token := True\<rparr>) s' \<and>
     phase s' = Finished r"
  using shutdown_completes [OF reach_cancelled [OF store_ok_new, where now = 0], where tempfile_in = fresh_temp
      and mc = index_of and ct_eq = "(=)" and expose = id and to_vec = json_to_vec and password = None
      and path = "Some db_path"]
  by auto

theorem server_expired_swept_witness:
  "\<exists>s'. server_step index_of (=) id fresh_temp json_to_vec None None
     (idle_server (snd (Store_expire (snd (Store_set Store_new ''k'' ''v'')) 5 ''k'' 0)) 5) s'"
proof -
  let ?st = "snd (Store_expire (snd (Store_set Store_new ''k'' ''v'')) 5 ''k'' 0)"
  have ok: "store_ok ?st" by (simp add: store_ok_expire store_ok_set)
  have "hm_get ''k'' (hashmap (shared (sys (idle_server ?st 5)))) = Some \<lparr>stored_value = ''v'', expiration_time = Some 5\<rparr>"
    "is_expired \<lparr>stored_value = ''v'', expiration_time = Some 5\<rparr> (clock (sys (idle_server ?st 5)))"
    by (simp_all add: idle_server_def Store_expire_def Store_set_def Store_new_def from_parts_def is_expired_def
        time_eval)
  from server_expired_swept [OF reach_idle [OF ok] this] show ?thesis by blast
qed

theorem no_password_no_change_witness:
  "\<exists>s :: (bytes, string) Server. length (tasks s) = 1 \<and> written (conn (session (hd (tasks s)))) = to_bytes (SimpleError ''NOAUTH Authentication required'') \<and>
     (\<forall>u. live (shared (sys s)) u = live (snd (Store_set Store_new ''k'' ''v'')) u) \<and>
     (\<forall>t \<in> set (tasks s). \<not> is_authorized (conn (session t)))"
proof -
  let ?st = "snd (Store_set Store_new ''k'' ''v'')" and ?f = "request_frame ''SET'' [''k'', ''w'']"
  let ?t = "spawn_connection (Some ''pw'')"
  let ?t1 = "?t\<lparr>received := to_bytes ?f, frames := [?f]\<rparr>"
  let ?s = "\<lambda>ts. (idle_server ?st 0)\<lparr>tasks := ts\<rparr>"
  let ?y = "(session ?t)\<lparr>store := ?st, count := 1, conn := \<lparr>auth_password = Some ''pw'', authenticated = False,
      written = to_bytes (SimpleError ''NOAUTH Authentication required'')\<rparr>\<rparr>"
  let ?S = "server_step index_of (=) id fresh_temp json_to_vec (Some ''pw'') None"
  define R where "R = (\<lambda>s s'. ?S s s' \<and> (\<forall>t \<in> set (tasks s). no_valid_auth (=) id ''pw'' t))"
  have cmd: "Command_try_from ?f = Inr (SET ''k'' ''w'')" by (simp add: keyword_distinct)
  have init: "server_init (?s [])"
    by (simp add: server_init_def idle_server_def sys_init_def store_ok_set)
  have "R (?s []) (?s [?t])"
    using accept [of "?s []" index_of "(=)" id fresh_temp json_to_vec "Some ''pw''" None] by (simp add: R_def idle_server_def)
  moreover have "?S (?s [?t]) (?s [?t1])"
  proof -
    have "parse_frames index_of Parser_new (to_bytes ?f) = Some (Parser_new, [?f], None)"
      using parse_frames_encoded [of "[?f]" index_of] by (simp add: request_frame_def size_eval)
    then have "task_step index_of (=) id False 0 ?t ?st (?t1) ?st"
      using task_read [of ?t "to_bytes ?f" index_of Parser_new "[?f]" None "(=)" id False 0 ?st]
      by (simp add: spawn_connection_def session_start_def)
    then show ?thesis
      using connection [of 0 "?s [?t]" index_of "(=)" id "?t1" ?st fresh_temp json_to_vec "Some ''pw''" None]
      by (simp add: idle_server_def)
  qed
  then have "R (?s [?t]) (?s [?t1])" by (simp add: R_def no_valid_auth_def spawn_connection_def)
  moreover have "?S (?s [?t1]) (?s [?t1\<lparr>session := ?y, frames := []\<rparr>])"
  proof -
    have "handle_frame (=) id \<lparr>env_clock = (\<lambda>_. 0), env_others = (\<lambda>_ s. s), env_write = (\<lambda>_. None)\<rparr>
        ((session ?t)\<lparr>store := ?st\<rparr>) ?f = (?y, None)"
      using cmd by (simp add: handle_frame_def outcome_of_def process_command_def can_execute_def is_authorized_def
          spawn_connection_def session_start_def Connection_new_def)
    then have "task_step index_of (=) id False 0 (?t1) ?st (?t1\<lparr>session := ?y, frames := []\<rparr>) ?st"
      using task_frame [of "?t1" ?f "[]" 0 0 "(=)" id None ?st ?y None index_of False]
      by (simp add: spawn_connection_def)
    then show ?thesis
      using connection [of 0 "?s [?t1]" index_of "(=)" id "?t1\<lparr>session := ?y, frames := []\<rparr>" ?st fresh_temp json_to_vec
          "Some ''pw''" None]
      by (simp add: idle_server_def)
  qed
  then have "R (?s [?t1]) (?s [?t1\<lparr>session := ?y, frames := []\<rparr>])"
    using cmd by (simp add: R_def no_valid_auth_def)
  ultimately have "R\<^sup>*\<^sup>* (?s []) (?s [?t1\<lparr>session := ?y, frames := []\<rparr>])"
    by (rule three_steps)
  from no_password_no_change [OF init this [unfolded R_def]] show ?thesis
    by (intro exI [of _ "?s [?t1\<lparr>session := ?y, frames := []\<rparr>]"]) (simp add: idle_server_def)
qed

end
