(* ===== verification/Conformance.thy ===== *)
theory Conformance
  imports Servers
begin

text \<open>
  The unit tests of the repository as data, evaluated on the model: encoder tests
  (\<open>src/src/frame.rs\<close>), decoder tests (\<open>src/src/command.rs\<close>), parser tests (\<open>src/src/parser.rs\<close>) and
  connection tests (\<open>src/src/connection.rs\<close>). Each table has a lemma that the model passes all of its
  cases, so the model and the code agree on them.
\<close>

section \<open>Encoder and decoder\<close>

definition frame_tests :: "(Frame \<times> bytes) list" where
  "frame_tests =
    [(SimpleString ''Hello'', ''+Hello'' @ CRLF),
     (SimpleError ''Error'', ''-Error'' @ CRLF),
     (Bulk (Some ''test''), ''$4'' @ CRLF @ ''test'' @ CRLF),
     (Bulk None, ''$-1'' @ CRLF),
     (Integer 12345, '':12345'' @ CRLF),
     (Integer (- 12345), '':-12345'' @ CRLF),
     (Array None, ''*-1'' @ CRLF),
     (Array (Some []), ''*0'' @ CRLF),
     (Array (Some [Bulk (Some ''hello''), Integer 12345]), ''*2'' @ CRLF @ ''$5'' @ CRLF @ ''hello'' @ CRLF @ '':12345'' @ CRLF)]"

lemma frame_tests_pass: "\<forall>(f, b) \<in> set frame_tests. to_bytes f = b"
  by (simp add: frame_tests_def int_to_string_def nat_to_string.simps digit_char_def)

definition test_bulk :: "bytes \<Rightarrow> Frame" where
  "test_bulk value = Bulk (Some value)"

definition test_array :: "bytes list \<Rightarrow> Frame" where
  "test_array parts = Array (Some (map test_bulk parts))"

lemma test_array_request: "test_array (cmd # args) = request_frame cmd args"
  by (simp add: test_array_def test_bulk_def request_frame_def)

definition command_parse_tests :: "(Frame \<times> (Error + Command)) list" where
  "command_parse_tests =
    [(test_array [''GET'', ''mykey''], Inr (GET ''mykey'')),
     (test_array [''PING''], Inr PING),
     (test_array [''QUIT''], Inr QUIT),
     (test_array [''SET'', ''mykey'', ''myvalue''], Inr (SET ''mykey'' ''myvalue'')),
     (test_array [''DEL'', ''mykey''], Inr (DEL ''mykey'')),
     (test_array [''EXPIRE'', ''mykey'', ''123''], Inr (EXPIRE ''mykey'' 123)),
     (test_array [''TTL'', ''mykey''], Inr (TTL ''mykey'')),
     (test_array [''AUTH'', ''mypass''], Inr (AUTH ''mypass'')),
     (test_array [''pInG''], Inr PING),
     (test_array [''qUiT''], Inr QUIT),
     (test_array [''gEt'', ''mykey''], Inr (GET ''mykey'')),
     (test_array [''SeT'', ''mykey'', ''myvalue''], Inr (SET ''mykey'' ''myvalue'')),
     (test_array [''dEl'', ''mykey''], Inr (DEL ''mykey'')),
     (test_array [''eXpIrE'', ''mykey'', ''60''], Inr (EXPIRE ''mykey'' 60)),
     (test_array [''TtL'', ''mykey''], Inr (TTL ''mykey'')),
     (test_array [''AuTh'', ''mypass''], Inr (AUTH ''mypass''))]"

definition command_binary_tests :: "(Frame \<times> (Error + Command)) list" where
  "command_binary_tests =
    [(test_array [''SET'', [CHR 0x00] @ ''key'' @ [CHR 0xFF], ''va'' @ [CHR 0x00] @ ''lue'' @ [CHR 0xFE]], Inr (SET ([CHR 0x00] @ ''key'' @ [CHR 0xFF]) (''va'' @ [CHR 0x00] @ ''lue'' @ [CHR 0xFE]))),
     (test_array [''AUTH'', [CHR 0x00] @ ''pass'' @ [CHR 0xFF]], Inr (AUTH ([CHR 0x00] @ ''pass'' @ [CHR 0xFF])))]"

definition command_error_tests :: "(Frame \<times> (Error + Command)) list" where
  "command_error_tests =
    [(Bulk (Some ''GET''), Inl InvalidCommandFrame),
     (Array None, Inl InvalidCommandFrame),
     (Array (Some []), Inl InvalidCommandFrame),
     (Array (Some [test_bulk ''GET'', Integer 1]), Inl InvalidCommandFrame),
     (Array (Some [test_bulk ''GET'', Bulk None]), Inl InvalidCommandFrame),
     (test_array [''FOO'', ''bar''], Inl UnknownCommand),
     (test_array [''GET''], Inl (WrongArity ''GET'' 0 1)),
     (test_array [''PING'', ''extra''], Inl (WrongArity ''PING'' 1 0)),
     (test_array [''QUIT'', ''extra''], Inl (WrongArity ''QUIT'' 1 0)),
     (test_array [''GET'', ''key'', ''extra''], Inl (WrongArity ''GET'' 2 1)),
     (test_array [''SET'', ''key''], Inl (WrongArity ''SET'' 1 2)),
     (test_array [''SET'', ''key'', ''value'', ''extra''], Inl (WrongArity ''SET'' 3 2)),
     (test_array [''DEL''], Inl (WrongArity ''DEL'' 0 1)),
     (test_array [''DEL'', ''key'', ''extra''], Inl (WrongArity ''DEL'' 2 1)),
     (test_array [''EXPIRE'', ''key''], Inl (WrongArity ''EXPIRE'' 1 2)),
     (test_array [''EXPIRE'', ''key'', ''60'', ''extra''], Inl (WrongArity ''EXPIRE'' 3 2)),
     (test_array [''EXPIRE'', ''key'', ''not-a-number''], Inl WrongArgumentType),
     (test_array [''EXPIRE'', ''key'', [CHR 0xFF, CHR 0xFE]], Inl WrongArgumentType),
     (test_array [''TTL''], Inl (WrongArity ''TTL'' 0 1)),
     (test_array [''TTL'', ''key'', ''extra''], Inl (WrongArity ''TTL'' 2 1)),
     (test_array [''AUTH''], Inl (WrongArity ''AUTH'' 0 1)),
     (test_array [''AUTH'', ''key'', ''extra''], Inl (WrongArity ''AUTH'' 2 1))]"

lemma test_numbers [simp]: "parse_u64_arg ''123'' = Inr 123" "parse_u64_arg ''60'' = Inr 60" "parse_u64_arg ''0'' = Inr 0"
  using parse_u64_arg_print [of 123] parse_u64_arg_print [of 60] parse_u64_arg_print [of 0]
  by (simp_all add: nat_to_string.simps digit_char_def)

lemma test_keywords [simp]:
  "eq_ignore_ascii_case ''pInG'' ''PING''" "eq_ignore_ascii_case ''qUiT'' ''QUIT''" "eq_ignore_ascii_case ''gEt'' ''GET''"
  "eq_ignore_ascii_case ''SeT'' ''SET''" "eq_ignore_ascii_case ''dEl'' ''DEL''" "eq_ignore_ascii_case ''eXpIrE'' ''EXPIRE''"
  "eq_ignore_ascii_case ''TtL'' ''TTL''" "eq_ignore_ascii_case ''AuTh'' ''AUTH''"
  by (unfold eq_ignore_ascii_case_def) code_simp+

lemma command_parse_tests_pass: "\<forall>(f, r) \<in> set command_parse_tests. Command_try_from f = r"
  by (simp add: command_parse_tests_def test_array_request keyword_distinct)

lemma command_binary_tests_pass: "\<forall>(f, r) \<in> set command_binary_tests. Command_try_from f = r"
  by (simp add: command_binary_tests_def test_array_request keyword_distinct)

lemma command_error_tests_pass: "\<forall>(f, r) \<in> set command_error_tests. Command_try_from f = r"
proof -
  have "Command_try_from (request_frame ''FOO'' [''bar'']) = Inl UnknownCommand"
    by (rule unknown_keyword) (simp add: arity_table_def eq_ignore_ascii_case_def to_ascii_lowercase_def)
  moreover have "parse_u64_arg ''not-a-number'' = Inl WrongArgumentType" "parse_u64_arg [CHR 0xFF, CHR 0xFE] = Inl WrongArgumentType"
    by (simp_all add: parse_u64_arg_def parse_u64_def parse_magnitude_def digit_value_def is_utf8_def)
  ultimately show ?thesis
    by (simp add: command_error_tests_def test_array_request keyword_distinct wrong_arity_def)
       (simp add: Command_try_from_def bulk_args_def test_bulk_def)
qed

section \<open>Parser\<close>

text \<open>A case: the input, the result, and the state and the buffer left, where the test looks at them.\<close>

definition simple_string_tests :: "(bytes \<times> ParseResult \<times> State option \<times> bytes option) list" where
  "simple_string_tests =
    [(''+'', Complete [], None, None),
     (''+OK'', Complete [], None, None),
     (''+'' @ CRLF, Complete [SimpleString ''''], None, None),
     (''+OK'' @ CRLF, Complete [SimpleString ''OK''], None, None)]"

definition simple_error_tests :: "(bytes \<times> ParseResult \<times> State option \<times> bytes option) list" where
  "simple_error_tests =
    [(''-'', Complete [], None, None),
     (''-OK'', Complete [], None, None),
     (''-'' @ CRLF, Complete [SimpleError ''''], None, None),
     (''-This is a simple error'' @ CRLF, Complete [SimpleError ''This is a simple error''], None, None)]"

definition bulk_string_tests :: "(bytes \<times> ParseResult \<times> State option \<times> bytes option) list" where
  "bulk_string_tests =
    [(''$'', Complete [], None, None),
     (''$5'', Complete [], None, None),
     (''$5'' @ CRLF, Complete [], None, None),
     (''$5'' @ CRLF @ ''h'', Complete [], None, None),
     (''$-2'' @ CRLF, Partial [] InvalidLength, Some (State.Error InvalidLength), None),
     (''$-1'' @ CRLF, Complete [Bulk None], None, None),
     (''$0'' @ CRLF @ CRLF, Complete [Bulk (Some [])], None, None),
     (''$5'' @ CRLF @ ''hellothere'' @ CRLF, Partial [] UnreadableBulkString, Some (State.Error UnreadableBulkString), None),
     (''$5'' @ CRLF @ ''hellothere'' @ CRLF, Partial [] UnreadableBulkString, Some (State.Error UnreadableBulkString), None),
     (''$5'' @ CRLF @ ''hello'' @ CRLF @ ''leftovers'', Complete [Bulk (Some ''hello'')], None, Some ''leftovers'')]"

definition array_tests :: "(bytes \<times> ParseResult \<times> State option \<times> bytes option) list" where
  "array_tests =
    [(''*'', Complete [], None, None),
     (''*5'', Complete [], None, None),
     (''*-2'' @ CRLF, Partial [] InvalidLength, Some (State.Error InvalidLength), None),
     (''*-1'' @ CRLF, Complete [Array None], None, None),
     (''*0'' @ CRLF, Complete [Array (Some [])], None, None),
     (''*5'' @ CRLF, Complete [], None, None),
     (''*3'' @ CRLF @ ''$5'' @ CRLF @ ''hello'' @ CRLF @ ''$3'' @ CRLF @ ''bye'' @ CRLF @ ''$4'' @ CRLF @ ''more'' @ CRLF @ ''$8leftover'', Complete [Array (Some [Bulk (Some ''hello''), Bulk (Some ''bye''), Bulk (Some ''more'')])], None, None)]"

definition nested_array_tests :: "(bytes \<times> ParseResult \<times> State option \<times> bytes option) list" where
  "nested_array_tests =
    [(''*1'' @ CRLF @ ''*1'' @ CRLF @ ''*2'' @ CRLF @ ''$1'' @ CRLF @ ''a'' @ CRLF @ ''*-1'' @ CRLF, Complete [Array (Some [Array (Some [Array (Some [Bulk (Some ''a''), Array None])])])], None, None)]"

definition integer_tests :: "(bytes \<times> ParseResult \<times> State option \<times> bytes option) list" where
  "integer_tests =
    [('':'', Complete [], None, None),
     ('':12345'', Complete [], None, None),
     ('':12345'' @ CRLF @ ''leftovers'', Complete [Integer 12345], None, Some ''leftovers''),
     ('':+12345'' @ CRLF @ '':-567890'' @ CRLF, Complete [Integer 12345, Integer (- 567890)], Some Start, None)]"

definition inline_tests :: "(bytes \<times> ParseResult \<times> State option \<times> bytes option) list" where
  "inline_tests =
    [(''h'', Complete [], None, None),
     (CRLF, Complete [], None, None),
     (''hello'' @ [LF], Complete [Array (Some [Bulk (Some ''hello'')])], None, None)]"

definition inline_error_tests :: "(bytes \<times> ParseResult \<times> State option \<times> bytes option) list" where
  "inline_error_tests =
    [(''PING'' @ [LF] @ ''$-2'' @ CRLF, Partial [Array (Some [Bulk (Some ''PING'')])] InvalidLength, Some (State.Error InvalidLength), None)]"

definition parser_test :: "bytes \<times> ParseResult \<times> State option \<times> bytes option \<Rightarrow> bool" where
  "parser_test = (\<lambda>(input, res, st, rest). \<exists>p. parse index_of Parser_new input = Some (p, res) \<and>
     (\<forall>x. st = Some x \<longrightarrow> state p = x) \<and> (\<forall>b. rest = Some b \<longrightarrow> buf p = b))"

lemma simple_string_tests_pass: "list_all parser_test simple_string_tests"
  by (simp add: simple_string_tests_def parser_test_def parser_eval)

lemma simple_error_tests_pass: "list_all parser_test simple_error_tests"
  by (simp add: simple_error_tests_def parser_test_def parser_eval)

lemma bulk_string_tests_pass: "list_all parser_test bulk_string_tests"
  by (simp add: bulk_string_tests_def parser_test_def parser_eval)

lemma array_tests_pass: "list_all parser_test array_tests"
  by (simp add: array_tests_def parser_test_def parser_eval)

lemma nested_array_tests_pass: "list_all parser_test nested_array_tests"
  by (simp add: nested_array_tests_def parser_test_def parser_eval)

lemma integer_tests_pass: "list_all parser_test integer_tests"
  by (simp add: integer_tests_def parser_test_def parser_eval)

lemma inline_tests_pass: "list_all parser_test inline_tests"
  by (simp add: inline_tests_def parser_test_def parser_eval)

lemma inline_error_tests_pass: "list_all parser_test inline_error_tests"
  by (simp add: inline_error_tests_def parser_test_def parser_eval)

text \<open>The tests that cut an input at every position.\<close>

definition simple_error_split :: "bytes \<times> Frame list" where
  "simple_error_split = (''-This is a simple error'' @ CRLF,
     [SimpleError ''This is a simple error''])"

definition bulk_string_split :: "bytes \<times> Frame list" where
  "bulk_string_split = (''$5'' @ CRLF @ ''hello'' @ CRLF @ ''$7'' @ CRLF @ ''another'' @ CRLF @ ''$4'' @ CRLF @ ''bulk'' @ CRLF,
     [Bulk (Some ''hello''), Bulk (Some ''another''), Bulk (Some ''bulk'')])"

definition simple_array_split :: "bytes \<times> Frame list" where
  "simple_array_split = (''*3'' @ CRLF @ ''$5'' @ CRLF @ ''hello'' @ CRLF @ ''$3'' @ CRLF @ ''bye'' @ CRLF @ ''$4'' @ CRLF @ ''more'' @ CRLF @ ''$8leftover'',
     [Array (Some [Bulk (Some ''hello''), Bulk (Some ''bye''), Bulk (Some ''more'')])])"

definition nested_array_split :: "bytes \<times> Frame list" where
  "nested_array_split = (''*1'' @ CRLF @ ''*1'' @ CRLF @ ''*2'' @ CRLF @ ''$1'' @ CRLF @ ''a'' @ CRLF @ ''*-1'' @ CRLF,
     [Array (Some [Array (Some [Array (Some [Bulk (Some ''a''), Array None])])])])"

definition integer_split :: "bytes \<times> Frame list" where
  "integer_split = ('':-123'' @ CRLF @ '':456'' @ CRLF @ '':7890'' @ CRLF @ '':3333'',
     [Integer (- 123), Integer 456, Integer 7890])"

definition inline_split :: "bytes \<times> Frame list" where
  "inline_split = (''hello there'' @ CRLF @ CRLF @ [LF] @ [LF] @ ''another line'' @ CRLF @ ''leftover'',
     [Array (Some [Bulk (Some ''hello''), Bulk (Some ''there'')]), Array (Some [Bulk (Some ''another''), Bulk (Some ''line'')])])"

definition split_test :: "bytes \<times> Frame list \<Rightarrow> bool" where
  "split_test = (\<lambda>(input, fs). \<forall>i < length input.
     feed_chunks (parse_frames index_of) Parser_new [take i input, drop i input] = Some (fs, None))"

lemma split_testI:
  assumes "parse index_of Parser_new input = Some (p, Complete fs)"
  shows "split_test (input, fs)"
proof -
  have "feed_chunks (parse_frames index_of) Parser_new [take i input, drop i input] = Some (fs, None)" for i
    unfolding stream.feed_chunks_concat [OF settled_new] using assms by (simp add: parse_frames_def)
  then show ?thesis by (simp add: split_test_def)
qed

lemma split_tests_pass:
  "split_test simple_error_split" "split_test bulk_string_split" "split_test simple_array_split"
  "split_test nested_array_split" "split_test integer_split" "split_test inline_split"
  unfolding simple_error_split_def bulk_string_split_def simple_array_split_def nested_array_split_def
    integer_split_def inline_split_def
  by (rule split_testI, simp add: parser_eval)+

definition split_before_sign :: "bytes list \<times> Frame list" where
  "split_before_sign = (['':'', ''-123'' @ CRLF], [Integer (- 123)])"

lemma split_before_sign_passes:
  "case split_before_sign of (pieces, fs) \<Rightarrow> feed_chunks (parse_frames index_of) Parser_new pieces = Some (fs, None)"
proof -
  have "parse index_of Parser_new ('':-123'' @ CRLF) = Some (Parser_new, Complete [Integer (- 123)])" by (simp add: parser_eval)
  then show ?thesis
    unfolding split_before_sign_def prod.case stream.feed_chunks_concat [OF settled_new] by (simp add: parse_frames_def)
qed

section \<open>Connection commands\<close>

text \<open>A test is a dialogue: commands with their time and what is expected of the outcome.\<close>

datatype Expect = Anything | Exactly ProcessOutcome | PositiveInteger

fun meets :: "Expect \<Rightarrow> ProcessOutcome option \<Rightarrow> bool" where
  "meets Anything out = True"
| "meets (Exactly e) out = (out = Some e)"
| "meets PositiveInteger out = (case out of Some (Respond (Integer ttl)) \<Rightarrow> 0 < sint ttl | _ \<Rightarrow> False)"

definition setup_connection :: "bytes option \<Rightarrow> bool \<Rightarrow> bytes Connection" where
  "setup_connection password auth = (Connection_new password)\<lparr>authenticated := auth\<rparr>"

fun dialogue :: "bytes Connection \<Rightarrow> Store \<Rightarrow> (Instant \<times> Command \<times> Expect) list \<Rightarrow> bool" where
  "dialogue c s [] = True"
| "dialogue c s ((now, cmd, e) # rest) =
     (case process_command (=) id c s now cmd of (out, c', s') \<Rightarrow> meets e out \<and> dialogue c' s' rest)"

definition process_command_tests :: "(Instant \<times> Command \<times> Expect) list list" where
  "process_command_tests =
    [[(0, PING, Exactly (Respond (SimpleString ''PONG'')))],
     [(0, NOOP, Exactly Noop)],
     [(0, SET ''mykey'' ''myvalue'', Exactly (Respond (SimpleString ''OK'')))],
     [(0, SET ''mykey'' ''myvalue'', Exactly (Respond (SimpleString ''OK''))), (0, GET ''mykey'', Exactly (Respond (Bulk (Some ''myvalue''))))],
     [(0, GET ''mykey'', Exactly (Respond (Bulk None)))],
     [(0, SET ''mykey'' ''myvalue'', Anything), (0, DEL ''mykey'', Exactly (Respond (Integer 1)))],
     [(0, DEL ''mykey'', Exactly (Respond (Integer 0)))]]"

definition process_expiration_tests :: "(Instant \<times> Command \<times> Expect) list list" where
  "process_expiration_tests =
    [[(0, SET ''mykey'' ''myvalue'', Anything), (0, EXPIRE ''mykey'' 60, Exactly (Respond (Integer 1)))],
     [(0, EXPIRE ''mykey'' 60, Exactly (Respond (Integer 0)))],
     [(0, SET ''mykey'' ''myvalue'', Anything), (0, EXPIRE ''mykey'' 0, Anything), (10 ^ 6, EXPIRE ''mykey'' 60, Exactly (Respond (Integer 0)))],
     [(0, TTL ''mykey'', Exactly (Respond (Integer (- 2))))],
     [(0, SET ''mykey'' ''myvalue'', Anything), (0, TTL ''mykey'', Exactly (Respond (Integer (- 1))))],
     [(0, SET ''mykey'' ''myvalue'', Anything), (0, EXPIRE ''mykey'' 60, Anything), (0, TTL ''mykey'', PositiveInteger)],
     [(0, SET ''mykey'' ''myvalue'', Anything), (0, EXPIRE ''mykey'' 0, Anything), (10 ^ 6, TTL ''mykey'', Exactly (Respond (Integer (- 2))))]]"

lemmas command_eval = process_command_def can_execute_def is_authorized_def authenticate_connection_def
  setup_connection_def Connection_new_def Store_new_def from_parts_def Store_set_def Store_get_def Store_del_def
  Store_expire_def Store_ttl_def hm_new_def hm_get_def hm_insert_def hm_remove_def is_expired_def time_eval
  duration_since_def as_secs_def Let_def

lemma process_command_tests_pass: "list_all (dialogue (setup_connection None False) Store_new) process_command_tests"
  by (simp add: process_command_tests_def command_eval)

lemma process_expiration_tests_pass:
  "list_all (dialogue (setup_connection None False) Store_new) process_expiration_tests"
  by (simp add: process_expiration_tests_def command_eval)

section \<open>Authentication and authorization\<close>

definition is_authorized_tests :: "(bytes option \<times> bool \<times> bool) list" where
  "is_authorized_tests =
    [(None, False, True),
     (Some ''my_password'', False, False),
     (Some ''my_password'', True, True)]"

definition auth_tests :: "(bytes option \<times> bool \<times> bytes \<times> Frame \<times> bool option) list" where
  "auth_tests =
    [(None, False, ''my_password'', SimpleError ''AUTH called without any password configured'', None),
     (Some ''my_password'', False, ''wrong_password'', SimpleError ''AUTH invalid password'', None),
     (Some ''my_password'', False, ''my_password'', SimpleString ''OK'', Some True),
     (Some ''my_password'', True, ''my_password'', SimpleString ''OK'', Some True),
     (Some ''my_password'', True, ''wrong_password'', SimpleError ''AUTH invalid password'', Some True),
     (Some ''my_password'', False, ''wrong_password'', SimpleError ''AUTH invalid password'', Some False)]"

definition authorization_tests :: "(bytes option \<times> bool \<times> (Instant \<times> Command \<times> Expect) list) list" where
  "authorization_tests =
    [(None, False, [(0, SET ''mykey'' ''myvalue'', Exactly (Respond (SimpleString ''OK'')))]),
     (Some ''my_password'', False, [(0, GET ''mykey'', Exactly (Respond (SimpleError ''NOAUTH Authentication required'')))]),
     (Some ''my_password'', True, [(0, SET ''mykey'' ''myvalue'', Exactly (Respond (SimpleString ''OK'')))]),
     (Some ''my_password'', False, [(0, PING, Exactly (Respond (SimpleString ''PONG'')))]),
     (Some ''my_password'', False, [(0, NOOP, Exactly Noop)]),
     (Some ''my_password'', False, [(0, QUIT, Exactly Quit)]),
     (Some ''my_password'', False, [(0, AUTH ''my_password'', Exactly (Respond (SimpleString ''OK''))), (0, SET ''mykey'' ''myvalue'', Exactly (Respond (SimpleString ''OK'')))]),
     (Some ''my_password'', False, [(0, AUTH ''wrong_password'', Exactly (Respond (SimpleError ''AUTH invalid password''))), (0, GET ''mykey'', Exactly (Respond (SimpleError ''NOAUTH Authentication required'')))])]"

lemma is_authorized_tests_pass: "\<forall>(pw, auth, r) \<in> set is_authorized_tests. is_authorized (setup_connection pw auth) = r"
  by (simp add: is_authorized_tests_def command_eval)

lemma auth_tests_pass:
  "\<forall>(pw, auth, k, r, after) \<in> set auth_tests.
     case authenticate_connection (=) id (setup_connection pw auth) k of
       (out, c) \<Rightarrow> out = Respond r \<and> (\<forall>a. after = Some a \<longrightarrow> authenticated c = a)"
  by (simp add: auth_tests_def command_eval)

lemma authorization_tests_pass:
  "\<forall>(pw, auth, d) \<in> set authorization_tests. dialogue (setup_connection pw auth) Store_new d"
  by (simp add: authorization_tests_def command_eval)

section \<open>Sessions, byte by byte\<close>

definition e2e_run :: "(bytes \<times> bytes) list" where
  "e2e_run =
    [(''*1'' @ CRLF @ ''$4'' @ CRLF @ ''PING'' @ CRLF,
      ''+PONG'' @ CRLF),
     (''*3'' @ CRLF @ ''$3'' @ CRLF @ ''SET'' @ CRLF @ ''$5'' @ CRLF @ ''mykey'' @ CRLF @ ''$7'' @ CRLF @ ''myvalue'' @ CRLF,
      ''+OK'' @ CRLF),
     (''*2'' @ CRLF @ ''$3'' @ CRLF @ ''GET'' @ CRLF @ ''$5'' @ CRLF @ ''mykey'' @ CRLF,
      ''$7'' @ CRLF @ ''myvalue'' @ CRLF),
     (''*2'' @ CRLF @ ''$3'' @ CRLF @ ''GET'' @ CRLF @ ''$8'' @ CRLF @ ''otherkey'' @ CRLF,
      ''$-1'' @ CRLF),
     (''*2'' @ CRLF @ ''$3'' @ CRLF @ ''DEL'' @ CRLF @ ''$5'' @ CRLF @ ''mykey'' @ CRLF,
      '':1'' @ CRLF),
     (''*2'' @ CRLF @ ''$3'' @ CRLF @ ''DEL'' @ CRLF @ ''$5'' @ CRLF @ ''mykey'' @ CRLF,
      '':0'' @ CRLF),
     (''*3'' @ CRLF @ ''$3'' @ CRLF @ ''SET'' @ CRLF @ ''$5'' @ CRLF @ ''exkey'' @ CRLF @ ''$5'' @ CRLF @ ''value'' @ CRLF,
      ''+OK'' @ CRLF),
     (''*3'' @ CRLF @ ''$6'' @ CRLF @ ''EXPIRE'' @ CRLF @ ''$5'' @ CRLF @ ''exkey'' @ CRLF @ ''$2'' @ CRLF @ ''60'' @ CRLF,
      '':1'' @ CRLF),
     (''*3'' @ CRLF @ ''$6'' @ CRLF @ ''EXPIRE'' @ CRLF @ ''$11'' @ CRLF @ ''missing-key'' @ CRLF @ ''$2'' @ CRLF @ ''60'' @ CRLF,
      '':0'' @ CRLF),
     (''*3'' @ CRLF @ ''$3'' @ CRLF @ ''SET'' @ CRLF @ ''$10'' @ CRLF @ ''expiredkey'' @ CRLF @ ''$5'' @ CRLF @ ''value'' @ CRLF,
      ''+OK'' @ CRLF),
     (''*3'' @ CRLF @ ''$6'' @ CRLF @ ''EXPIRE'' @ CRLF @ ''$10'' @ CRLF @ ''expiredkey'' @ CRLF @ ''$1'' @ CRLF @ ''0'' @ CRLF,
      '':1'' @ CRLF),
     (''*3'' @ CRLF @ ''$6'' @ CRLF @ ''EXPIRE'' @ CRLF @ ''$10'' @ CRLF @ ''expiredkey'' @ CRLF @ ''$2'' @ CRLF @ ''60'' @ CRLF,
      '':0'' @ CRLF),
     (''*2'' @ CRLF @ ''$3'' @ CRLF @ ''TTL'' @ CRLF @ ''$11'' @ CRLF @ ''missing-key'' @ CRLF,
      '':-2'' @ CRLF),
     (''*3'' @ CRLF @ ''$3'' @ CRLF @ ''SET'' @ CRLF @ ''$8'' @ CRLF @ ''ttl-live'' @ CRLF @ ''$5'' @ CRLF @ ''value'' @ CRLF,
      ''+OK'' @ CRLF),
     (''*2'' @ CRLF @ ''$3'' @ CRLF @ ''TTL'' @ CRLF @ ''$8'' @ CRLF @ ''ttl-live'' @ CRLF,
      '':-1'' @ CRLF),
     (''*3'' @ CRLF @ ''$3'' @ CRLF @ ''SET'' @ CRLF @ ''$12'' @ CRLF @ ''ttl-expiring'' @ CRLF @ ''$5'' @ CRLF @ ''value'' @ CRLF,
      ''+OK'' @ CRLF),
     (''*3'' @ CRLF @ ''$6'' @ CRLF @ ''EXPIRE'' @ CRLF @ ''$12'' @ CRLF @ ''ttl-expiring'' @ CRLF @ ''$2'' @ CRLF @ ''60'' @ CRLF,
      '':1'' @ CRLF),
     (''*3'' @ CRLF @ ''$3'' @ CRLF @ ''SET'' @ CRLF @ ''$11'' @ CRLF @ ''ttl-expired'' @ CRLF @ ''$5'' @ CRLF @ ''value'' @ CRLF,
      ''+OK'' @ CRLF),
     (''*3'' @ CRLF @ ''$6'' @ CRLF @ ''EXPIRE'' @ CRLF @ ''$11'' @ CRLF @ ''ttl-expired'' @ CRLF @ ''$1'' @ CRLF @ ''0'' @ CRLF,
      '':1'' @ CRLF),
     (''*2'' @ CRLF @ ''$3'' @ CRLF @ ''TTL'' @ CRLF @ ''$11'' @ CRLF @ ''ttl-expired'' @ CRLF,
      '':-2'' @ CRLF),
     (''*1'' @ CRLF @ ''$3'' @ CRLF @ ''FOO'' @ CRLF,
      ''-Unknown Command'' @ CRLF),
     (''*4'' @ CRLF @ ''$3'' @ CRLF @ ''SET'' @ CRLF @ ''$5'' @ CRLF @ ''mykey'' @ CRLF @ ''$7'' @ CRLF @ ''myvalue'' @ CRLF @ ''$8'' @ CRLF @ ''too many'' @ CRLF,
      ''-Wrong number of arguments'' @ CRLF),
     (''*1'' @ CRLF @ ''$3'' @ CRLF @ ''GET'' @ CRLF,
      ''-Wrong number of arguments'' @ CRLF)]"

definition noop_session :: "(bytes \<times> bytes) list" where
  "noop_session =
    [([LF], []),
     (''*1'' @ CRLF @ ''$4'' @ CRLF @ ''PING'' @ CRLF,
      ''+PONG'' @ CRLF),
     (''*1'' @ CRLF @ ''$4'' @ CRLF @ ''QUIT'' @ CRLF,
      [])]"

definition blocks_protected_commands_until_authenticated :: "(bytes \<times> bytes) list" where
  "blocks_protected_commands_until_authenticated =
    [(''*2'' @ CRLF @ ''$3'' @ CRLF @ ''GET'' @ CRLF @ ''$5'' @ CRLF @ ''mykey'' @ CRLF,
      ''-NOAUTH Authentication required'' @ CRLF),
     (''*1'' @ CRLF @ ''$4'' @ CRLF @ ''QUIT'' @ CRLF,
      [])]"

definition rejects_invalid_auth :: "(bytes \<times> bytes) list" where
  "rejects_invalid_auth =
    [(''*2'' @ CRLF @ ''$4'' @ CRLF @ ''AUTH'' @ CRLF @ ''$14'' @ CRLF @ ''wrong_password'' @ CRLF,
      ''-AUTH invalid password'' @ CRLF),
     (''*3'' @ CRLF @ ''$3'' @ CRLF @ ''SET'' @ CRLF @ ''$5'' @ CRLF @ ''mykey'' @ CRLF @ ''$7'' @ CRLF @ ''myvalue'' @ CRLF,
      ''-NOAUTH Authentication required'' @ CRLF),
     (''*1'' @ CRLF @ ''$4'' @ CRLF @ ''QUIT'' @ CRLF,
      [])]"

definition accepts_valid_auth :: "(bytes \<times> bytes) list" where
  "accepts_valid_auth =
    [(''*2'' @ CRLF @ ''$4'' @ CRLF @ ''AUTH'' @ CRLF @ ''$11'' @ CRLF @ ''my_password'' @ CRLF,
      ''+OK'' @ CRLF),
     (''*3'' @ CRLF @ ''$3'' @ CRLF @ ''SET'' @ CRLF @ ''$5'' @ CRLF @ ''mykey'' @ CRLF @ ''$7'' @ CRLF @ ''myvalue'' @ CRLF,
      ''+OK'' @ CRLF),
     (''*2'' @ CRLF @ ''$3'' @ CRLF @ ''GET'' @ CRLF @ ''$5'' @ CRLF @ ''mykey'' @ CRLF,
      ''$7'' @ CRLF @ ''myvalue'' @ CRLF),
     (''*1'' @ CRLF @ ''$4'' @ CRLF @ ''QUIT'' @ CRLF,
      [])]"

definition test_env :: Env where
  "test_env = \<lparr>env_clock = (\<lambda>_. 0), env_others = (\<lambda>_ s. s), env_write = (\<lambda>_. None)\<rparr>"

lemma test_env_simps [simp]:
  "env_clock test_env n = 0" "env_others test_env n s = s" "env_write test_env n = None"
  by (simp_all add: test_env_def)

text \<open>Two replies on one connection.\<close>

definition send_response_tests :: "(Frame \<times> bytes) list" where
  "send_response_tests = [(SimpleString ''OK'', ''+OK'' @ CRLF), (SimpleError ''Test'', ''-Test'' @ CRLF)]"

fun replies_written :: "'sec Connection \<Rightarrow> (Frame \<times> bytes) list \<Rightarrow> bool" where
  "replies_written c [] = True"
| "replies_written c ((f, bs) # rest) =
     (case send_response None c f of
        (Inl e, c') \<Rightarrow> False
      | (Inr u, c') \<Rightarrow> written c' = written c @ bs \<and> replies_written c' rest)"

lemma send_response_tests_pass: "replies_written (setup_connection None False) send_response_tests"
  by (simp add: send_response_tests_def send_response_def)

text \<open>A session passes when the calls, one read each, are answered by the responses and it ends as expected.\<close>

definition session_test :: "bytes option \<Rightarrow> (bytes \<times> bytes) list \<Rightarrow> Exit option \<Rightarrow> bool" where
  "session_test password cases ends = (\<exists>y.
     run index_of (=) id test_env (session_start password Store_new) (map (\<lambda>(call, _). Read call) cases) = (y, ends) \<and>
     written (conn y) = concat (map snd cases))"

lemma session_testI:
  assumes "map fst cases = map to_bytes fs" and "\<forall>f \<in> set fs. wf_frame f"
    and "\<exists>y. run_frames (=) id test_env (session_start password Store_new) fs = (y, ends) \<and>
      written (conn y) = concat (map snd cases)"
  shows "session_test password cases ends"
proof -
  obtain y where y: "run_frames (=) id test_env (session_start password Store_new) fs = (y, ends)"
    "written (conn y) = concat (map snd cases)" using assms(3) by blast
  let ?x = "session_start password Store_new"
  have x: "parser ?x = Parser_new" by (simp add: session_start_def)
  have p: "parse_frames index_of (parser ?x) (concat (map fst cases)) = Some (Parser_new, fs, None)"
    using parse_frames_encoded [OF assms(2), of index_of] unfolding x by (simp add: assms(1))
  have ne: "[] \<notin> set (map fst cases)" unfolding assms(1) by (auto dest: sym)
  have "settled (parser ?x)" unfolding x by simp
  from run_reads [OF index_of_memchr this ne p y(1)]
  obtain q where "run index_of (=) id test_env ?x (map Read (map fst cases)) = (y\<lparr>parser := q\<rparr>, ends)" by auto
  then show ?thesis using y(2) by (auto simp: session_test_def case_prod_unfold o_def)
qed

lemmas session_eval = session_start_def handle_frame_def outcome_of_def keyword_distinct wrong_arity_def command_eval

lemma foo_unknown: "Command_try_from (request_frame ''FOO'' []) = Inl UnknownCommand"
  by (rule unknown_keyword) (simp add: arity_table_def eq_ignore_ascii_case_def to_ascii_lowercase_def)

definition e2e_frames :: "Frame list" where
  "e2e_frames =
    [request_frame ''PING'' [],
     request_frame ''SET'' [''mykey'', ''myvalue''],
     request_frame ''GET'' [''mykey''],
     request_frame ''GET'' [''otherkey''],
     request_frame ''DEL'' [''mykey''],
     request_frame ''DEL'' [''mykey''],
     request_frame ''SET'' [''exkey'', ''value''],
     request_frame ''EXPIRE'' [''exkey'', ''60''],
     request_frame ''EXPIRE'' [''missing-key'', ''60''],
     request_frame ''SET'' [''expiredkey'', ''value''],
     request_frame ''EXPIRE'' [''expiredkey'', ''0''],
     request_frame ''EXPIRE'' [''expiredkey'', ''60''],
     request_frame ''TTL'' [''missing-key''],
     request_frame ''SET'' [''ttl-live'', ''value''],
     request_frame ''TTL'' [''ttl-live''],
     request_frame ''SET'' [''ttl-expiring'', ''value''],
     request_frame ''EXPIRE'' [''ttl-expiring'', ''60''],
     request_frame ''SET'' [''ttl-expired'', ''value''],
     request_frame ''EXPIRE'' [''ttl-expired'', ''0''],
     request_frame ''TTL'' [''ttl-expired''],
     request_frame ''FOO'' [],
     request_frame ''SET'' [''mykey'', ''myvalue'', ''too many''],
     request_frame ''GET'' []]"

lemma e2e_run_frames:
  "\<exists>y. run_frames (=) id test_env (session_start None Store_new) e2e_frames = (y, None) \<and>
     written (conn y) = concat (map snd e2e_run)"
  by (simp add: e2e_frames_def foo_unknown session_eval)
    (simp add: e2e_run_def int_to_string_def nat_to_string.simps digit_char_def)

lemmas bytes_eval = request_frame_def nat_to_string.simps digit_char_def size_eval

lemma e2e_run_passes: "session_test None e2e_run None"
  by (rule session_testI [OF _ _ e2e_run_frames]) (simp_all add: e2e_run_def e2e_frames_def bytes_eval)

lemma blocks_passes:
  "session_test (Some ''my_password'') blocks_protected_commands_until_authenticated (Some ReturnOk)"
  by (rule session_testI [where fs = "[request_frame ''GET'' [''mykey''], request_frame ''QUIT'' []]"])
    (simp add: blocks_protected_commands_until_authenticated_def bytes_eval, simp add: bytes_eval,
     simp add: blocks_protected_commands_until_authenticated_def session_eval)

lemma noop_passes: "session_test None noop_session (Some ReturnOk)"
proof -
  let ?fs = "[request_frame ''PING'' [], request_frame ''QUIT'' []]"
  have p: "parse_frames index_of (parser (session_start None Store_new)) (concat (map fst noop_session)) = Some (Parser_new, ?fs, None)"
    by (simp add: noop_session_def session_start_def parse_frames_def parser_eval request_frame_def)
  obtain y where y: "run_frames (=) id test_env (session_start None Store_new) ?fs = (y, Some ReturnOk)"
    "written (conn y) = concat (map snd noop_session)"
    by (simp add: noop_session_def session_eval)
  have "settled (parser (session_start None Store_new))" "[] \<notin> set (map fst noop_session)"
    by (simp_all add: session_start_def noop_session_def)
  from run_reads [OF index_of_memchr this p y(1)] y(2) show ?thesis
    by (auto simp: session_test_def case_prod_unfold o_def)
qed

lemma rejects_passes: "session_test (Some ''my_password'') rejects_invalid_auth (Some ReturnOk)"
  by (rule session_testI [where fs = "[request_frame ''AUTH'' [''wrong_password''],
        request_frame ''SET'' [''mykey'', ''myvalue''], request_frame ''QUIT'' []]"])
    (simp add: rejects_invalid_auth_def bytes_eval, simp add: bytes_eval,
     simp add: rejects_invalid_auth_def session_eval)

lemma accepts_passes: "session_test (Some ''my_password'') accepts_valid_auth (Some ReturnOk)"
  by (rule session_testI [where fs = "[request_frame ''AUTH'' [''my_password''],
        request_frame ''SET'' [''mykey'', ''myvalue''], request_frame ''GET'' [''mykey''], request_frame ''QUIT'' []]"])
    (simp add: accepts_valid_auth_def bytes_eval, simp add: bytes_eval,
     simp add: accepts_valid_auth_def session_eval nat_to_string.simps digit_char_def)

end
