(* ===== verification/Conformance_Storage.thy ===== *)
theory Conformance_Storage
  imports Conformance
begin

text \<open>
  The unit tests of the store, the snapshots (\<open>src/src/store.rs\<close>), the archive (\<open>src/src/archive.rs\<close>) and the
  configuration (\<open>src/src/config.rs\<close>) as data, evaluated on the model. A test of the store is a script of
  timed calls with the results it asserts; a test of persistence runs a script, reloads the store and
  runs another script.
\<close>

section \<open>Store\<close>

datatype TestCall =
    TSet Key bytes
  | TSetReturns Key bytes "bytes option"
  | TGet Key "bytes option"
  | TDel Key "bytes option"
  | TExpire Key u64 u64
  | TTtl Key int int
  | TSweep
  | TMissing Key
  | TPresent Key
  | THeapEmpty

text \<open>A call gives whether its assertion holds, and the next store; \<open>TTtl\<close> asserts a closed range.\<close>

fun test_call :: "Store \<Rightarrow> Instant \<Rightarrow> TestCall \<Rightarrow> bool \<times> Store" where
  "test_call s now (TSet k v) = (True, snd (Store_set s k v))"
| "test_call s now (TSetReturns k v r) = (fst (Store_set s k v) = r, snd (Store_set s k v))"
| "test_call s now (TGet k r) = (Store_get s now k = r, s)"
| "test_call s now (TDel k r) = (fst (Store_del s now k) = r, snd (Store_del s now k))"
| "test_call s now (TExpire k n r) = (fst (Store_expire s now k n) = Some r, snd (Store_expire s now k n))"
| "test_call s now (TTtl k low high) = (low \<le> sint (Store_ttl s now k) \<and> sint (Store_ttl s now k) \<le> high, s)"
| "test_call s now TSweep = (True, sweep_expired_once s now)"
| "test_call s now (TMissing k) = (hm_get k (hashmap s) = None, s)"
| "test_call s now (TPresent k) = (hm_get k (hashmap s) \<noteq> None, s)"
| "test_call s now THeapEmpty = (expiration_heap s = [], s)"

fun store_script :: "Store \<Rightarrow> (Instant \<times> TestCall) list \<Rightarrow> bool \<times> Store" where
  "store_script s [] = (True, s)"
| "store_script s ((now, c) # rest) =
     (case test_call s now c of (ok, s') \<Rightarrow> case store_script s' rest of (oks, s'') \<Rightarrow> (ok \<and> oks, s''))"

text \<open>Instants of the scripts, in nanoseconds.\<close>

definition ms :: "nat \<Rightarrow> Instant" where
  "ms n = n * 10 ^ 6"

definition sec :: "nat \<Rightarrow> Instant" where
  "sec n = n * 10 ^ 9"

definition store_get_del_tests :: "(Instant \<times> TestCall) list list" where
  "store_get_del_tests =
    [[(0, TSet ''newkey'' ''newvalue''), (0, TGet ''newkey'' (Some ''newvalue''))],
     [(0, TGet ''newkey'' None)],
     [(0, TSet ''newkey'' ''newvalue''), (0, TDel ''newkey'' (Some ''newvalue''))],
     [(0, TDel ''newkey'' None)],
     [(0, TSet ''expiring-key'' ''value''), (0, TExpire ''expiring-key'' 0 1), (ms 1, TGet ''expiring-key'' None)],
     [(0, TSet ''expiring-key'' ''value''), (0, TExpire ''expiring-key'' 0 1), (ms 1, TDel ''expiring-key'' None)]]"

definition store_ttl_tests :: "(Instant \<times> TestCall) list list" where
  "store_ttl_tests =
    [[(0, TSet ''ttl-key'' ''value''), (0, TExpire ''ttl-key'' 60 1)],
     [(0, TSet ''ttl-key'' ''value''), (0, TExpire ''ttl-key'' 0 1), (ms 1, TExpire ''ttl-key'' 60 0)],
     [(0, TTtl ''ttl-key'' (- 2) (- 2))],
     [(0, TSet ''ttl-key'' ''value''), (0, TExpire ''ttl-key'' 0 1), (ms 1, TTtl ''ttl-key'' (- 2) (- 2))],
     [(0, TSet ''ttl-key'' ''ttl-value''), (0, TTtl ''ttl-key'' (- 1) (- 1))],
     [(0, TSet ''ttl-key'' ''value''), (0, TExpire ''ttl-key'' 100 1), (ms 1, TTtl ''ttl-key'' 2 100)],
     [(0, TSet ''ttl-key'' ''value''), (0, TExpire ''ttl-key'' 100 1), (ms 1, TTtl ''ttl-key'' 99 99),
      (ms 1001, TTtl ''ttl-key'' 98 98)]]"

definition store_sweep_tests :: "(Instant \<times> TestCall) list list" where
  "store_sweep_tests =
    [[(0, TSet ''ttl-key'' ''value''), (0, TExpire ''ttl-key'' 60 1),
      (0, TSetReturns ''ttl-key'' ''new-value'' (Some ''value'')), (sec 60, TSweep),
      (sec 60, TGet ''ttl-key'' (Some ''new-value'')), (sec 60, TTtl ''ttl-key'' (- 1) (- 1))],
     [(0, TSet ''ttl-key'' ''value''), (0, TExpire ''ttl-key'' 5 1), (0, TExpire ''ttl-key'' 10 1), (sec 5, TSweep),
      (sec 5, TGet ''ttl-key'' (Some ''value'')), (sec 5, TTtl ''ttl-key'' 1 10), (sec 10, TSweep),
      (sec 10, TGet ''ttl-key'' None), (sec 10, TTtl ''ttl-key'' (- 2) (- 2))]]"

text \<open>The loops over ten keys; the sweep is called or made by the background task.\<close>

definition sweep_all_test :: "(Instant \<times> TestCall) list" where
  "sweep_all_test =
     concat (map (\<lambda>i. [(0, TSet [char_of i] ''value''), (0, TExpire [char_of i] 0 1)]) [0..<10]) @
     [(0, TSet ''persistent_key'' ''this key should remain''), (ms 1, TSweep)] @
     map (\<lambda>i. (ms 1, TMissing [char_of i])) [0..<10] @
     [(ms 1, TPresent ''persistent_key''), (ms 1, THeapEmpty)]"

text \<open>The tests with two tasks, once for each order in which the tasks get the locks.\<close>

definition concurrent_expires :: "(Instant \<times> TestCall) list list" where
  "concurrent_expires =
     map (\<lambda>order. (0, TSet ''ttl-key'' ''my_val'') # order @
         [(sec 5, TSweep), (sec 10, TSweep), (sec 10, TGet ''ttl-key'' None)])
       [[(0, TExpire ''ttl-key'' 5 1), (0, TExpire ''ttl-key'' 10 1)],
        [(0, TExpire ''ttl-key'' 10 1), (0, TExpire ''ttl-key'' 5 1)]]"

definition concurrent_del_vs_ttl :: "(Instant \<times> TestCall) list list" where
  "concurrent_del_vs_ttl =
     map (\<lambda>order. (0, TSet ''ttl-key'' ''my_val'') # order @
         [(0, TSweep), (0, TGet ''ttl-key'' None), (0, TTtl ''ttl-key'' (- 2) (- 2))])
       [[(0, TExpire ''ttl-key'' 0 1), (0, TDel ''ttl-key'' None)],
        [(0, TDel ''ttl-key'' (Some ''my_val'')), (0, TExpire ''ttl-key'' 0 0)]]"

lemma sweep_heap_nil: "sweep_heap now [] c = (c, [])"
  by (simp add: sweep_heap.simps heap_peek_def)

lemma sweep_heap_due:
  "sweep_heap now ((t, k) # h) c = (if t \<le> now then sweep_heap now h (List.insert k c) else (c, (t, k) # h))"
  by (subst sweep_heap.simps) (simp add: heap_peek_def heap_pop_def)

lemmas store_eval = Store_new_def from_parts_def store_defs hm_new_def hm_get_def hm_insert_def hm_remove_def
  heap_new_def heap_push_def is_expired_def entry_expired_def sweep_expired_once_def sweep_heap_nil sweep_heap_due
  sweep_map_def time_eval duration_since_def as_secs_def ms_def sec_def Let_def

lemma store_get_del_tests_pass: "list_all (\<lambda>t. fst (store_script Store_new t)) store_get_del_tests"
  by (simp add: store_get_del_tests_def store_eval)

lemma store_ttl_tests_pass: "list_all (\<lambda>t. fst (store_script Store_new t)) store_ttl_tests"
  by (simp add: store_ttl_tests_def store_eval)

lemma store_sweep_tests_pass: "list_all (\<lambda>t. fst (store_script Store_new t)) store_sweep_tests"
  by (simp add: store_sweep_tests_def store_eval)

lemma concurrent_tests_pass:
  "list_all (\<lambda>t. fst (store_script Store_new t)) (concurrent_expires @ concurrent_del_vs_ttl)"
  by (simp add: concurrent_expires_def concurrent_del_vs_ttl_def store_eval)

lemma store_script_append:
  "store_script s (a @ b) =
     (case store_script s a of (ok, s') \<Rightarrow> case store_script s' b of (oks, s'') \<Rightarrow> (ok \<and> oks, s''))"
  by (induction a arbitrary: s) (auto split: prod.splits)

text \<open>The loop over the keys, for any keys: all of them end up with a deadline that has passed.\<close>

definition short_lived :: "Key list \<Rightarrow> Store \<Rightarrow> bool" where
  "short_lived ks s \<longleftrightarrow> store_ok s \<and> (\<forall>k \<in> set ks. \<exists>v. hm_get k (hashmap s) = Some v \<and> expiration_time v = Some 0) \<and>
     (\<forall>(t, k) \<in> set (expiration_heap s). t = 0)"

lemma short_lived_fill:
  "short_lived ks s \<Longrightarrow>
     \<exists>s'. store_script s (concat (map (\<lambda>k. [(0, TSet k v), (0, TExpire k 0 1)]) ks')) = (True, s') \<and> short_lived (ks' @ ks) s'"
proof (induction ks' arbitrary: ks s)
  case (Cons k ks')
  let ?s = "snd (Store_expire (snd (Store_set s k v)) 0 k 0)"
  have ok: "store_ok s" using Cons.prems by (simp add: short_lived_def)
  then have hm: "hm_invar (hashmap s)" by (simp add: store_ok_def)
  have shape: "fst (Store_expire (snd (Store_set s k v)) 0 k 0) = Some 1"
    "hm_get k' (hashmap ?s) = (if k' = k then Some \<lparr>stored_value = v, expiration_time = Some 0\<rparr> else hm_get k' (hashmap s))"
    "set (expiration_heap ?s) = insert (0, k) (set (expiration_heap s))" for k'
    using hm by (simp_all add: Store_expire_def Store_set_def is_expired_def time_eval)
  have "short_lived (k # ks) ?s"
    using Cons.prems store_ok_expire [OF store_ok_set [OF ok]]
    by (auto simp: short_lived_def shape)
  from Cons.IH [OF this] shape(1) show ?case by (auto simp: short_lived_def)
qed simp

lemma short_lived_swept:
  assumes "short_lived ks s" "0 < now" "p \<notin> set ks" and s'_def: "s' = sweep_expired_once (snd (Store_set s p v)) now"
  shows "k \<in> set ks \<Longrightarrow> hm_get k (hashmap s') = None" "hm_get p (hashmap s') \<noteq> None" "expiration_heap s' = []"
proof -
  let ?s = "snd (Store_set s p v)"
  have ok: "store_ok ?s" using assms(1) by (simp add: short_lived_def store_ok_set)
  have hm: "hm_invar (hashmap s)" using assms(1) by (simp add: short_lived_def store_ok_def)
  have get: "hm_get k (hashmap ?s) = (if k = p then Some \<lparr>stored_value = v, expiration_time = None\<rparr> else hm_get k (hashmap s))"
    "expiration_heap ?s = expiration_heap s" for k
    using hm by (simp_all add: Store_set_def)
  show "hm_get k (hashmap s') = None" if "k \<in> set ks"
    using that assms(1-3) by (auto simp: s'_def sweep_parts [OF ok] get short_lived_def is_expired_def entry_expired_def)
  show "hm_get p (hashmap s') \<noteq> None"
    by (simp add: s'_def sweep_parts [OF ok] get is_expired_def entry_expired_def)
  show "expiration_heap s' = []"
    using assms(1,2) by (auto simp: s'_def sweep_parts [OF ok] get short_lived_def filter_empty_conv)
qed

lemma store_script_checks:
  "(\<And>k. k \<in> set ks \<Longrightarrow> hm_get k (hashmap s) = None) \<Longrightarrow> store_script s (map (\<lambda>k. (now, TMissing k)) ks) = (True, s)"
  by (induction ks) auto

lemma sweep_all_test_passes: "fst (store_script Store_new sweep_all_test)"
proof -
  define ks where "ks = map (\<lambda>i. [char_of i :: u8]) [0..<10 :: nat]"
  have test: "sweep_all_test = concat (map (\<lambda>k. [(0, TSet k ''value''), (0, TExpire k 0 1)]) ks) @
      [(0, TSet ''persistent_key'' ''this key should remain''), (ms 1, TSweep)] @
      map (\<lambda>k. (ms 1, TMissing k)) ks @ [(ms 1, TPresent ''persistent_key''), (ms 1, THeapEmpty)]"
    by (simp add: sweep_all_test_def ks_def o_def)
  have "expiration_heap Store_new = []" by (simp add: Store_new_def from_parts_def heap_new_def)
  then have "short_lived [] Store_new" by (simp add: short_lived_def)
  from short_lived_fill [OF this, of "''value''" ks] obtain s where
    s: "store_script Store_new (concat (map (\<lambda>k. [(0, TSet k ''value''), (0, TExpire k 0 1)]) ks)) = (True, s)"
    "short_lived ks s" by auto
  let ?s = "sweep_expired_once (snd (Store_set s ''persistent_key'' ''this key should remain'')) (ms 1)"
  have "0 < ms 1" "''persistent_key'' \<notin> set ks" by (auto simp: ms_def ks_def)
  note swept = short_lived_swept [OF s(2) this refl, where v = "''this key should remain''"]
  have "store_script ?s (map (\<lambda>k. (ms 1, TMissing k)) ks) = (True, ?s)"
    by (rule store_script_checks) (rule swept(1))
  with swept(2,3) show ?thesis by (simp add: test store_script_append s(1))
qed

section \<open>Snapshot values\<close>

text \<open>The clocks of the tests: the wall clock runs in step with the monotonic one.\<close>

definition wall :: "Instant \<Rightarrow> Clock" where
  "wall t = \<lparr>sys_time = Some (t + sec 1700000000), mono = t\<rparr>"

definition unix_millis :: "Instant \<Rightarrow> nat" where
  "unix_millis t = as_millis (t + sec 1700000000)"

definition snapshot_value_plain_test :: "StoreValue \<times> SnapshotValue" where
  "snapshot_value_plain_test =
     (\<lparr>stored_value = ''snapshot-value'', expiration_time = None\<rparr>,
      \<lparr>snapshot_bytes = ''snapshot-value'', expiration_time_unix = None\<rparr>)"

definition store_value_plain_test :: "SnapshotValue \<times> StoreValue" where
  "store_value_plain_test =
     (\<lparr>snapshot_bytes = ''snapshot-value'', expiration_time_unix = None\<rparr>,
      \<lparr>stored_value = ''snapshot-value'', expiration_time = None\<rparr>)"

definition snapshot_value_tests :: "(Instant \<times> StoreValue \<times> SnapshotValue) list" where
  "snapshot_value_tests =
    [(sec 3, \<lparr>stored_value = ''snapshot-value'', expiration_time = Some (sec 8)\<rparr>,
      \<lparr>snapshot_bytes = ''snapshot-value'', expiration_time_unix = Some (unix_millis (sec 3) + 5000)\<rparr>)]"

definition store_value_tests :: "(Instant \<times> SnapshotValue \<times> (SnapshotError + StoreValue)) list" where
  "store_value_tests =
    [(sec 3, \<lparr>snapshot_bytes = ''snapshot-value'', expiration_time_unix = Some (unix_millis (sec 3) + 5000)\<rparr>,
      Inr \<lparr>stored_value = ''snapshot-value'', expiration_time = Some (sec 8)\<rparr>)]"

definition unrepresentable_duration_test :: "SnapshotValue \<times> SnapshotError" where
  "unrepresentable_duration_test =
     (\<lparr>snapshot_bytes = ''snapshot-value'', expiration_time_unix = Some (2 ^ 128 - 1)\<rparr>, DurationOverflow)"

lemmas wall_eval = wall_def unix_millis_def unix_now_millis_def as_millis_def u128_add_def u64_try_from_def u64_max_def
  duration_from_millis_def

lemma snapshot_value_tests_pass:
  "list_all (\<lambda>(t, v, sv). SnapshotValue_from (wall t) v = Some sv \<and> SnapshotValue_from_ref (wall t) v = Some sv) snapshot_value_tests"
  by (simp add: snapshot_value_tests_def SnapshotValue_from_def SnapshotValue_from_ref_def wall_eval sec_def duration_since_def)

lemma store_value_tests_pass: "list_all (\<lambda>(t, sv, r). StoreValue_try_from (wall t) sv = Some r) store_value_tests"
  by (simp add: store_value_tests_def StoreValue_try_from_def expiration_try_from_def wall_eval sec_def time_eval)

lemma plain_value_tests_pass:
  "case snapshot_value_plain_test of (v, sv) \<Rightarrow> SnapshotValue_from (wall 0) v = Some sv \<and> SnapshotValue_from_ref (wall 0) v = Some sv"
  "case store_value_plain_test of (sv, v) \<Rightarrow> StoreValue_try_from (wall 0) sv = Some (Inr v)"
  "case unrepresentable_duration_test of (sv, e) \<Rightarrow> StoreValue_try_from (wall 0) sv = Some (Inl e)"
  by (simp_all add: snapshot_value_plain_test_def store_value_plain_test_def unrepresentable_duration_test_def SnapshotValue_from_def
      SnapshotValue_from_ref_def StoreValue_try_from_def expiration_try_from_def wall_eval sec_def time_eval)

section \<open>Persistence\<close>

text \<open>Three ways to reload a store: through a snapshot, through a dump, and through an archive file.\<close>

definition snapshot_reload :: "Instant \<Rightarrow> Store \<Rightarrow> Store option" where
  "snapshot_reload now s =
     (case to_snapshot s now (\<lambda>_. wall now) of
        None \<Rightarrow> None
      | Some snap \<Rightarrow> (case from_snapshot (wall now) (\<lambda>_. wall now) snap of Some (Inr s') \<Rightarrow> Some s' | _ \<Rightarrow> None))"

definition dump_reload :: "Instant \<Rightarrow> Store \<Rightarrow> Store option" where
  "dump_reload now s =
     (case dump json_to_vec s now (\<lambda>_. wall now) of
        Some (Inr b) \<Rightarrow> (case restore json_from_slice (wall now) (\<lambda>_. wall now) b of Some (Inr s') \<Rightarrow> Some s' | _ \<Rightarrow> None)
      | _ \<Rightarrow> None)"

definition test_path :: Path where
  "test_path = \<lparr>absolute = True, comps = [''tmp'', ''archive'']\<rparr>"

definition test_temp :: "Path \<Rightarrow> Disk \<Rightarrow> io_error + string list" where
  "test_temp p d =
     (let t = resolve d p @ [''archive.1.tmp''] in
      if dirs d (resolve d p) \<and> current d t = None \<and> \<not> dirs d t then Inr t else Inl NotFound)"

definition test_save :: "Disk \<Rightarrow> Store \<Rightarrow> (string ArchiveError + unit) option \<times> Disk list" where
  "test_save d s = save test_temp no_faults json_to_vec 0 (\<lambda>_. wall 0) d test_path s"

definition archive_reload :: "Store list \<Rightarrow> Disk \<Rightarrow> Store \<Rightarrow> Store option" where
  "archive_reload older d s =
     (case test_save (fold (\<lambda>s d. last (snd (test_save d s))) older d) s of
        (Some (Inr _), ds) \<Rightarrow>
          (case load json_from_slice (wall 0) (\<lambda>_. wall 0) None (last ds) test_path of Some (Inr s') \<Rightarrow> Some s' | _ \<Rightarrow> None)
      | _ \<Rightarrow> None)"

definition reload_test :: "(Store \<Rightarrow> Store option) \<Rightarrow> (Instant \<times> TestCall) list \<Rightarrow> (Instant \<times> TestCall) list \<Rightarrow> bool" where
  "reload_test reload before after =
     (case store_script Store_new before of (ok, s) \<Rightarrow>
        ok \<and> (case reload s of None \<Rightarrow> False | Some s' \<Rightarrow> fst (store_script s' after)))"

lemma dump_reload_snapshot: "dump_reload now s = snapshot_reload now s"
proof (cases "to_snapshot s now (\<lambda>_. wall now)")
  case (Some snap)
  then have "dump json_to_vec s now (\<lambda>_. wall now) = Some (Inr (json_snapshot snap))"
    by (simp add: dump_def json_to_vec_def)
  with json.read_back [of snap "json_snapshot snap"] Some show ?thesis
    by (auto simp: dump_reload_def snapshot_reload_def restore_def json_to_vec_def split: option.split sum.split)
qed (simp add: dump_reload_def snapshot_reload_def dump_def)

text \<open>The directory \<open>/tmp\<close> exists, nothing else does, and no temporary file is left in it.\<close>

definition test_disk :: "Disk \<Rightarrow> bool" where
  "test_disk d \<longleftrightarrow> dirs d = (\<lambda>q. q = [] \<or> q = [''tmp'']) \<and> cwd d = [] \<and> current d [''tmp'', ''archive.1.tmp''] = None"

lemma wall_snapshot: "\<exists>snap. to_snapshot s now (\<lambda>_. wall t) = Some snap"
proof -
  have "\<exists>es. snapshot_entries (\<lambda>_. wall t) i kvs = Some es" for i kvs
    by (induction kvs arbitrary: i) (auto simp: SnapshotValue_from_ref_def unix_now_millis_def wall_def)
  then show ?thesis by (auto simp: to_snapshot_def)
qed

lemma test_save_ok:
  assumes "test_disk d"
  shows "\<exists>ds. test_save d s = (Some (Inr ()), ds) \<and> test_disk (last ds)"
proof -
  obtain snap where "to_snapshot s 0 (\<lambda>_. wall 0) = Some snap" using wall_snapshot by blast
  with assms show ?thesis
    by (simp add: test_save_def save_def dump_def json_to_vec_def save_bytes_def test_temp_def test_path_def test_disk_def
        fs_eval Let_def)
qed

lemma test_disk_older: "test_disk d \<Longrightarrow> test_disk (fold (\<lambda>s d. last (snd (test_save d s))) older d)"
proof (induction older arbitrary: d)
  case (Cons s older)
  then show ?case using test_save_ok [of d s] by auto
qed simp

lemma archive_reload_snapshot:
  assumes "test_disk d"
  shows "archive_reload older d s = snapshot_reload 0 s"
proof -
  define d' where "d' = fold (\<lambda>s d. last (snd (test_save d s))) older d"
  have "test_disk d'" unfolding d'_def using assms by (rule test_disk_older)
  then obtain ds where ds: "test_save d' s = (Some (Inr ()), ds)" using test_save_ok by blast
  have "x @ [''archive.1.tmp''] \<noteq> [''tmp'', ''archive'']" for x
    using arg_cong [where f = last] by force
  then have "temp_law test_temp d' (resolve d' test_path)" "names_file test_path"
    using \<open>test_disk d'\<close> by (simp_all add: temp_law_def test_temp_def test_path_def names_file_def resolve_def Let_def)
  from json.load_saved [OF this ds [unfolded test_save_def], of "wall 0" "\<lambda>_. wall 0"] obtain snap where
    snap: "to_snapshot s 0 (\<lambda>_. wall 0) = Some snap"
    "load json_from_slice (wall 0) (\<lambda>_. wall 0) None (last ds) test_path =
       map_option (map_sum (\<lambda>e. InvalidArchive (InvalidData e)) id) (from_snapshot (wall 0) (\<lambda>_. wall 0) snap)" by blast
  consider "from_snapshot (wall 0) (\<lambda>_. wall 0) snap = None"
    | e where "from_snapshot (wall 0) (\<lambda>_. wall 0) snap = Some (Inl e)"
    | s' where "from_snapshot (wall 0) (\<lambda>_. wall 0) snap = Some (Inr s')"
    by (metis not_Some_eq sum.exhaust)
  then show ?thesis
    by cases (simp_all add: archive_reload_def snapshot_reload_def d'_def [symmetric] ds snap)
qed

definition from_snapshot_test :: "Snapshot \<times> (Instant \<times> TestCall) list" where
  "from_snapshot_test =
     (\<lparr>entries =
        [\<lparr>entry_key = ''persistent-key'', entry_value = \<lparr>snapshot_bytes = ''persistent-value'', expiration_time_unix = None\<rparr>\<rparr>,
         \<lparr>entry_key = ''future-key'', entry_value = \<lparr>snapshot_bytes = ''future-value'', expiration_time_unix = Some (unix_millis 0 + 60000)\<rparr>\<rparr>,
         \<lparr>entry_key = ''expired-key'', entry_value = \<lparr>snapshot_bytes = ''expired-value'', expiration_time_unix = Some (unix_millis 0 - 1)\<rparr>\<rparr>]\<rparr>,
      [(0, TGet ''persistent-key'' (Some ''persistent-value'')), (0, TGet ''future-key'' (Some ''future-value'')),
       (0, TGet ''expired-key'' None), (0, TTtl ''persistent-key'' (- 1) (- 1)), (0, TTtl ''future-key'' 0 60),
       (0, TTtl ''expired-key'' (- 2) (- 2))])"

definition snapshot_round_trip_test :: "(Instant \<times> TestCall) list \<times> (Instant \<times> TestCall) list" where
  "snapshot_round_trip_test =
     ([(0, TSet ''roundtrip-persistent'' ''persistent-value''), (0, TSet ''roundtrip-expiring'' ''future-value''),
       (0, TSet ''roundtrip-expired'' ''expired-value''), (0, TExpire ''roundtrip-expiring'' 60 1),
       (0, TExpire ''roundtrip-expired'' 0 1)],
      [(ms 1, TGet ''roundtrip-persistent'' (Some ''persistent-value'')), (ms 1, TGet ''roundtrip-expiring'' (Some ''future-value'')),
       (ms 1, TGet ''roundtrip-expired'' None), (ms 1, TTtl ''roundtrip-persistent'' (- 1) (- 1)),
       (ms 1, TTtl ''roundtrip-expiring'' 0 60), (ms 1, TTtl ''roundtrip-expired'' (- 2) (- 2))])"

definition dump_restore_tests :: "((Instant \<times> TestCall) list \<times> (Instant \<times> TestCall) list) list" where
  "dump_restore_tests =
    [([(0, TSet ''live_key'' ''live_value''), (0, TExpire ''live_key'' 1000 1), (0, TSet ''expired_key'' ''expired_value''),
       (0, TExpire ''expired_key'' 0 1), (0, TSet ''persistent_key'' ''persistent_value'')],
      [(sec 5, TGet ''live_key'' (Some ''live_value'')), (sec 5, TGet ''expired_key'' None),
       (sec 5, TGet ''persistent_key'' (Some ''persistent_value''))]),
     ([(0, TSet ''empty_bytes_key'' []), (0, TSet ''non_utf_bytes_key'' [CHR 0xF4, CHR 0xFF]),
       (0, TSet ''embedded_zero_key'' (''hello'' @ [CHR 0x00] @ ''world'')), (0, TSet [CHR 0xF4, CHR 0xFF] ''value'')],
      [(sec 5, TGet ''empty_bytes_key'' (Some [])), (sec 5, TGet ''non_utf_bytes_key'' (Some [CHR 0xF4, CHR 0xFF])),
       (sec 5, TGet ''embedded_zero_key'' (Some (''hello'' @ [CHR 0x00] @ ''world''))),
       (sec 5, TGet [CHR 0xF4, CHR 0xFF] (Some ''value''))]),
     ([(0, TSet ''live_key'' ''live_value''), (0, TExpire ''live_key'' 5 1)],
      [(0, TGet ''live_key'' (Some ''live_value'')), (sec 5, TGet ''live_key'' None)])]"

lemmas reload_eval = reload_test_def snapshot_reload_def to_snapshot_def SnapshotValue_from_ref_def from_snapshot_def
  StoreValue_try_from_def expiration_try_from_def not_past_def hm_iter_def hm_collect_def heap_of_def List.map_filter_def
  wall_eval store_eval

lemma from_snapshot_test_passes:
  "case from_snapshot_test of (snap, after) \<Rightarrow>
     \<exists>s. from_snapshot (wall 0) (\<lambda>_. wall 0) snap = Some (Inr s) \<and> fst (store_script s after)"
  by (simp add: from_snapshot_test_def reload_eval)

lemma snapshot_round_trip_test_passes:
  "case snapshot_round_trip_test of (before, after) \<Rightarrow> reload_test (snapshot_reload (ms 1)) before after"
  by (simp add: snapshot_round_trip_test_def reload_eval)

lemma dump_restore_tests_pass:
  "list_all (\<lambda>(before, after). reload_test (dump_reload 0) before after) dump_restore_tests"
  unfolding dump_reload_snapshot [abs_def]
  by (simp add: dump_restore_tests_def reload_eval)

section \<open>Archives\<close>

text \<open>A disk with the directory \<open>/tmp\<close>, which is also where relative paths start, and perhaps an archive in it.\<close>

definition tmp_disk :: "bytes option \<Rightarrow> Disk" where
  "tmp_disk old = \<lparr>cwd = [], dirs = (\<lambda>q. q = [] \<or> q = [''tmp'']),
     current = (\<lambda>q. if q = [''tmp'', ''archive''] then map_option (\<lambda>b. \<lparr>content = b, synced = True\<rparr>) old else None),
     stable = (\<lambda>_. None)\<rparr>"

definition load_tests :: "(bytes option \<times> string \<times> (string ArchiveError + Store \<Rightarrow> bool)) list" where
  "load_tests =
    [(None, ''test-archive'', \<lambda>r. \<exists>s. r = Inr s \<and> Store_get s 0 ''missing-key'' = None),
     (None, ''/tmp/test-archive'', \<lambda>r. \<exists>s. r = Inr s \<and> Store_get s 0 ''missing-key'' = None),
     (None, ''/tmp/does_not_exist/test-archive'', \<lambda>r. \<exists>e. r = Inl (ReadFile e)),
     (Some ''This is not an archive'', ''/tmp/archive'', \<lambda>r. \<exists>e. r = Inl (InvalidArchive e))]"

text \<open>Archives saved before on the same path, the calls before the save, and those after the load.\<close>

definition archive_tests :: "((Instant \<times> TestCall) list list \<times> (Instant \<times> TestCall) list \<times> (Instant \<times> TestCall) list) list" where
  "archive_tests =
    [([], [(0, TSet ''my_key'' ''my_value'')], [(0, TGet ''my_key'' (Some ''my_value''))]),
     ([[(0, TSet ''my_key_a'' ''my_value_a'')]], [(0, TSet ''my_key_b'' ''my_value_b'')],
      [(0, TGet ''my_key_a'' None), (0, TGet ''my_key_b'' (Some ''my_value_b''))])]"

definition archive_content_tests :: "((Instant \<times> TestCall) list list \<times> (Instant \<times> TestCall) list \<times> (Instant \<times> TestCall) list) list" where
  "archive_content_tests =
    [([], [(0, TSet ''empty-value'' []), (0, TSet ''non-utf-value'' [CHR 0xF4, CHR 0xFF]),
        (0, TSet ''embedded-zero-value'' (''hello'' @ [CHR 0x00] @ ''world'')), (0, TSet [CHR 0xF4, CHR 0xFF] ''value'')],
      [(0, TGet ''empty-value'' (Some [])), (0, TGet ''non-utf-value'' (Some [CHR 0xF4, CHR 0xFF])),
       (0, TGet ''embedded-zero-value'' (Some (''hello'' @ [CHR 0x00] @ ''world''))), (0, TGet [CHR 0xF4, CHR 0xFF] (Some ''value''))]),
     ([], [(0, TSet ''persistent-key'' ''persistent-value''), (0, TSet ''live-key'' ''live-value''),
        (0, TSet ''expired-key'' ''expired-value''), (0, TExpire ''live-key'' 5 1), (0, TExpire ''expired-key'' 0 1)],
      [(0, TGet ''persistent-key'' (Some ''persistent-value'')), (0, TGet ''live-key'' (Some ''live-value'')),
       (0, TTtl ''live-key'' 1 5), (0, TGet ''expired-key'' None), (0, TTtl ''expired-key'' (- 2) (- 2)),
       (sec 5, TGet ''live-key'' None)]),
     ([], [], [(0, TGet ''missing-key'' None)]),
     ([[(0, TSet ''first-key'' ''first-value'')], [(0, TSet ''second-key'' ''second-value'')]], [(0, TSet ''third-key'' ''third-value'')],
      [(0, TGet ''first-key'' None), (0, TGet ''second-key'' None), (0, TGet ''third-key'' (Some ''third-value''))])]"

definition save_to_missing_directory_test :: "(string ArchiveError + unit) option" where
  "save_to_missing_directory_test =
     fst (save test_temp no_faults json_to_vec 0 (\<lambda>_. wall 0) (tmp_disk None) (path_from ''/tmp/does_not_exist/archive'') Store_new)"

lemma load_tests_pass:
  "list_all (\<lambda>(old, path, ok). \<exists>r. load json_from_slice (wall 0) (\<lambda>_. wall 0) None (tmp_disk old) (path_from path) = Some r \<and> ok r)
     load_tests"
  by (simp add: load_tests_def load_def path_from_def tmp_disk_def fs_eval Store_get_def Store_new_def from_parts_def
      restore_def json_from_slice_def read_snapshot_def hm_new_def hm_get_def)

lemma archive_tests_pass:
  "list_all (\<lambda>(older, before, after).
     reload_test (archive_reload (map (\<lambda>t. snd (store_script Store_new t)) older) (tmp_disk None)) before after)
     (archive_tests @ archive_content_tests)"
proof -
  have "test_disk (tmp_disk None)" by (simp add: test_disk_def tmp_disk_def)
  note reload = archive_reload_snapshot [OF this, abs_def]
  show ?thesis unfolding reload by (simp add: archive_tests_def archive_content_tests_def reload_eval)
qed

lemma save_to_missing_directory_test_passes: "\<exists>e. save_to_missing_directory_test = Some (Inl (WriteFile e))"
proof -
  obtain snap where "to_snapshot Store_new 0 (\<lambda>_. wall 0) = Some snap" using wall_snapshot by blast
  then show ?thesis
    by (simp add: save_to_missing_directory_test_def save_def dump_def json_to_vec_def save_bytes_def test_temp_def
        tmp_disk_def path_from_def fs_eval Let_def)
qed

section \<open>Archive documents\<close>

text \<open>The entry the documents of the tests repeat, and the documents.\<close>

definition test_entry :: "nat \<Rightarrow> nat option \<Rightarrow> SnapshotEntry" where
  "test_entry k deadline =
     \<lparr>entry_key = [char_of k], entry_value = \<lparr>snapshot_bytes = ''my_value'', expiration_time_unix = deadline\<rparr>\<rparr>"

definition restore_data_tests :: "(SnapshotEntry list \<times> (string RestoreError + Store \<Rightarrow> bool)) list" where
  "restore_data_tests =
    [([test_entry 0 (Some (2 ^ 128 - 1)), test_entry 1 None, test_entry 2 None], \<lambda>r. \<exists>e. r = Inl (InvalidData e)),
     ([test_entry 0 None, test_entry 0 None, test_entry 2 None], \<lambda>r. r = Inl (InvalidData DuplicateKey)),
     ([test_entry 0 None, test_entry 0 (Some 0), test_entry 2 None], \<lambda>r. r = Inl (InvalidData DuplicateKey)),
     ([], \<lambda>r. \<exists>s. r = Inr s \<and> hm_iter (hashmap s) = [])]"

definition invalid_json :: string where
  "invalid_json = ''{''"

definition restore_format_tests :: "string list" where
  "restore_format_tests =
    [''{'' @ json_field ''entries'' (''[{'' @ json_field ''value'' (json_value (entry_value (test_entry 0 None))) @ ''},'' @
       json_entry (test_entry 1 None) @ '','' @ json_entry (test_entry 2 None) @ '']'') @ ''}'',
     ''{'' @ json_field ''entries'' (''[{'' @ json_field ''key'' ''[0]'' @ '','' @ json_field ''unrecognized'' ''[0]'' @ '','' @
       json_field ''value'' (json_value (entry_value (test_entry 0 None))) @ ''},'' @
       json_entry (test_entry 1 None) @ '','' @ json_entry (test_entry 2 None) @ '']'') @ ''}'']"

definition truncated_archive :: "nat \<Rightarrow> string" where
  "truncated_archive i =
     (let dump = json_snapshot \<lparr>entries = [test_entry 0 None, test_entry 1 None, test_entry 2 None]\<rparr> in
      take (length dump - i) dump)"

lemma restore_data_tests_pass:
  "list_all (\<lambda>(es, ok). \<exists>r. restore json_from_slice (wall 0) (\<lambda>_. wall 0) (json_snapshot \<lparr>entries = es\<rparr>) = Some r \<and> ok r)
     restore_data_tests"
proof -
  have again: "json_from_slice (json_snapshot snap) = Inr snap" for snap
    by (rule json.read_back) (simp add: json_to_vec_def)
  show ?thesis
    by (simp add: restore_data_tests_def restore_def again test_entry_def reload_eval RestoreError_from_SnapshotError_def)
qed

lemma json_from_slice_Inl: "read_snapshot b = None \<Longrightarrow> json_from_slice b = Inl ''invalid snapshot''"
  by (simp add: json_from_slice_def)

lemma restore_format_tests_pass: "list_all (\<lambda>b. \<exists>e. json_from_slice b = Inl e) restore_format_tests"
  by (simp add: restore_format_tests_def json_from_slice_def read_snapshot_def read_field_def read_list_def read_entry_def
      json_field_def read_byte_def read_nat_def is_digit_def digit_value_def parse_magnitude_def)

lemma invalid_json_fails: "\<exists>e. restore json_from_slice (wall 0) (\<lambda>_. wall 0) invalid_json = Some (Inl e)"
  by (simp add: invalid_json_def restore_def json_from_slice_def read_snapshot_def read_field_def json_field_def)

lemma truncated_archive_fails:
  "read_snapshot (truncated_archive 1) = None" "read_snapshot (truncated_archive 2) = None"
  "read_snapshot (truncated_archive 3) = None" "read_snapshot (truncated_archive 4) = None"
  "read_snapshot (truncated_archive 5) = None"
proof -
  show "read_snapshot (truncated_archive 1) = None" by code_simp
  show "read_snapshot (truncated_archive 2) = None" by code_simp
  show "read_snapshot (truncated_archive 3) = None" by code_simp
  show "read_snapshot (truncated_archive 4) = None" by code_simp
  show "read_snapshot (truncated_archive 5) = None" by code_simp
qed

lemma truncated_archive_test_passes: "list_all (\<lambda>i. \<exists>e. json_from_slice (truncated_archive i) = Inl e) [1, 2, 3, 4, 5]"
  using truncated_archive_fails [THEN json_from_slice_Inl] by simp

section \<open>Configuration\<close>

definition config_tests :: "((string \<times> string) list \<times> (string \<times> string) list \<times> nat list \<times> u16 \<times> Path option) list" where
  "config_tests =
    [([], [], [127, 0, 0, 1], 6379, None),
     ([(''--address'', ''127.0.0.2''), (''--port'', ''6380''), (''--archive-path'', ''/tmp/redlike.rdb'')], [],
      [127, 0, 0, 2], 6380, Some (path_from ''/tmp/redlike.rdb'')),
     ([(''-a'', ''127.0.0.3''), (''-p'', ''6381''), (''-r'', ''/tmp/redlike-short.rdb'')], [],
      [127, 0, 0, 3], 6381, Some (path_from ''/tmp/redlike-short.rdb'')),
     ([], [(''ADDRESS'', ''127.0.0.4''), (''PORT'', ''6382''), (''ARCHIVE_PATH'', ''/tmp/redlike-env.rdb'')],
      [127, 0, 0, 4], 6382, Some (path_from ''/tmp/redlike-env.rdb'')),
     ([(''--address'', ''127.0.0.5''), (''--port'', ''6383''), (''--archive-path'', ''/tmp/redlike-cli.rdb'')],
      [(''ADDRESS'', ''127.0.0.4''), (''PORT'', ''6382''), (''ARCHIVE_PATH'', ''/tmp/redlike-env.rdb'')],
      [127, 0, 0, 5], 6383, Some (path_from ''/tmp/redlike-cli.rdb''))]"

definition config_error_tests :: "(string \<times> string) list list" where
  "config_error_tests = [[(''--port'', ''1000'')], [(''--address'', ''not-an-ip'')]]"

definition config_debug_tests :: "((string \<times> string) list \<times> string) list" where
  "config_debug_tests =
    [([(''--address'', ''127.0.0.2''), (''--port'', ''6380''), (''--archive-path'', ''/tmp/redlike.rdb''),
       (''--auth-password'', ''test_password'')],
      ''Config { address: 127.0.0.2, port: 6380, archive_path: Some('' @ quoted ''/tmp/redlike.rdb'' @
      ''), auth_password: Some('' @ quoted ''-----'' @ '') }''),
     ([(''--address'', ''127.0.0.2''), (''--port'', ''6380''), (''--archive-path'', ''/tmp/redlike.rdb'')],
      ''Config { address: 127.0.0.2, port: 6380, archive_path: Some('' @ quoted ''/tmp/redlike.rdb'' @ ''), auth_password: None }'')]"

abbreviation parse_config :: "(string \<times> string) list \<Rightarrow> (string \<times> string) list \<Rightarrow> string + (nat list, bytes) Config" where
  "parse_config args env \<equiv>
     try_parse_from (RawConfig_try_parse_from plain_clap id Ipv4_from_str (map_of env)) id (command_line ''redlike'' args)"

definition path_fmt :: "Path \<Rightarrow> string" where
  "path_fmt p = quoted ((if absolute p then ''/'' else []) @ join_with ''/'' (comps p))"

lemma config_tests_pass:
  "list_all (\<lambda>(args, env, ip, p, path). \<exists>c. parse_config args env = Inr c \<and> address c = ip \<and> port c = p \<and> archive_path c = path)
     config_tests"
  by (simp add: config_tests_def config_eval)

lemma config_error_tests_pass: "list_all (\<lambda>args. \<exists>e. parse_config args [] = Inl e) config_error_tests"
  by (simp add: config_error_tests_def config_eval)

lemma config_debug_tests_pass:
  "list_all (\<lambda>(args, text). \<exists>c. parse_config args [] = Inr c \<and> Config_fmt Ipv4_fmt path_fmt c = text) config_debug_tests"
  by (simp add: config_debug_tests_def config_eval Config_fmt_def Ipv4_fmt_def path_fmt_def fmt_option_def quoted_def
      nat_to_string.simps digit_char_def)

end
