(* ===== verification/Server_Runs.thy ===== *)
theory Server_Runs
  imports Servers
begin

text \<open>
  The step relation of the server as a function: a move names the step and what the outside world
  chooses in it (the bytes read, the clock, the results of system calls), and \<open>perform\<close> makes it or
  refuses. The moves give exactly the steps of \<open>server_step\<close>, so a list of moves that \<open>perform_all\<close> accepts is
  an execution of the server that can be evaluated.
\<close>

section \<open>Moves\<close>

datatype Move =
    Accept
  | Receive nat bytes
  | Serve nat Instant "io_error option"
  | Close nat
  | Join nat
  | Cancel
  | StopAccepting
  | Drained
  | TimedOut
  | AbortTask nat
  | Aborted
  | Save Faults "nat \<Rightarrow> Clock" Instant
  | Background bool
  | Advance Instant

text \<open>The background task; the flag chooses the timer when it waits.\<close>

definition perform_sweeper :: "Sys \<Rightarrow> bool \<Rightarrow> Sys option" where
  "perform_sweeper s timer =
     (case pc s of
        Sweeping \<Rightarrow>
          (case sweep_heap (clock s) (expiration_heap (shared s)) [] of
             (candidates, heap) \<Rightarrow>
               Some (s\<lparr>shared := (shared s)\<lparr>expiration_heap := heap\<rparr>, pc := Purging (clock s) candidates\<rparr>))
      | Purging now candidates \<Rightarrow>
          Some (s\<lparr>shared := (shared s)\<lparr>hashmap := sweep_map now candidates (hashmap (shared s))\<rparr>, pc := Peeking\<rparr>)
      | Peeking \<Rightarrow> Some (s\<lparr>pc := Waiting (map_option fst (heap_peek (expiration_heap (shared s))))\<rparr>)
      | Waiting d \<Rightarrow>
          if timer then (case d of None \<Rightarrow> None | Some t \<Rightarrow> if t \<le> clock s then Some (s\<lparr>pc := Sweeping\<rparr>) else None)
          else if wakeup (shared s) then Some (s\<lparr>shared := (shared s)\<lparr>wakeup := False\<rparr>, pc := Sweeping\<rparr>) else None)"

definition perform_receive :: "(u8 \<Rightarrow> bytes \<Rightarrow> nat option) \<Rightarrow> 'sec Task \<Rightarrow> bytes \<Rightarrow> 'sec Task option" where
  "perform_receive mc t bs =
     (if ended t \<or> frames t \<noteq> [] \<or> halting t \<or> bs = [] then None
      else Some (case parse_frames mc (parser (session t)) bs of
          None \<Rightarrow> t\<lparr>received := received t @ bs, ended := True\<rparr>
        | Some (p, fs, e) \<Rightarrow>
            t\<lparr>session := (session t)\<lparr>parser := p\<rparr>, received := received t @ bs, frames := fs, halting := (e \<noteq> None)\<rparr>))"

definition is_del :: "Frame \<Rightarrow> bool" where
  "is_del f \<longleftrightarrow> (case Command_try_from f of Inr (DEL k) \<Rightarrow> True | _ \<Rightarrow> False)"

definition perform_serve ::
  "(bytes \<Rightarrow> bytes \<Rightarrow> bool) \<Rightarrow> ('sec \<Rightarrow> bytes) \<Rightarrow> Instant \<Rightarrow> 'sec Task \<Rightarrow> Store \<Rightarrow> Instant \<Rightarrow> io_error option \<Rightarrow>
   ('sec Task \<times> Store) option"
where
  "perform_serve ct_eq expose now t s reading io =
     (case frames t of
        [] \<Rightarrow> None
      | f # fs \<Rightarrow>
          if \<not> ended t \<and> (reading = now \<or> reading \<le> now \<and> is_del f)
          then (case handle_frame ct_eq expose \<lparr>env_clock = (\<lambda>_. reading), env_others = (\<lambda>_ s. s), env_write = (\<lambda>_. io)\<rparr>
              ((session t)\<lparr>store := s\<rparr>) f of
            (y, exit) \<Rightarrow> Some (t\<lparr>session := y, frames := fs, ended := (exit \<noteq> None)\<rparr>, store y))
          else None)"

definition with_task :: "('sec, 'json) Server \<Rightarrow> nat \<Rightarrow> ('sec Task \<times> Store) option \<Rightarrow> ('sec, 'json) Server option" where
  "with_task s i r = map_option (\<lambda>(t, st). s\<lparr>sys := (sys s)\<lparr>shared := st\<rparr>, tasks := (tasks s)[i := t]\<rparr>) r"

fun perform ::
  "(u8 \<Rightarrow> bytes \<Rightarrow> nat option) \<Rightarrow> (bytes \<Rightarrow> bytes \<Rightarrow> bool) \<Rightarrow> ('sec \<Rightarrow> bytes) \<Rightarrow>
   (Path \<Rightarrow> Disk \<Rightarrow> io_error + string list) \<Rightarrow> (Snapshot \<Rightarrow> 'json + bytes) \<Rightarrow> 'sec option \<Rightarrow> Path option \<Rightarrow>
   Move \<Rightarrow> ('sec, 'json) Server \<Rightarrow> ('sec, 'json) Server option"
where
  "perform mc ct_eq expose tempfile_in to_vec password path Accept s =
     (if phase s = Accepting then Some (s\<lparr>tasks := tasks s @ [spawn_connection password]\<rparr>) else None)"
| "perform mc ct_eq expose tempfile_in to_vec password path (Receive i bs) s =
     (if i < length (tasks s)
      then with_task s i (map_option (\<lambda>t. (t, shared (sys s))) (perform_receive mc (tasks s ! i) bs)) else None)"
| "perform mc ct_eq expose tempfile_in to_vec password path (Serve i reading io) s =
     (if i < length (tasks s)
      then with_task s i (perform_serve ct_eq expose (clock (sys s)) (tasks s ! i) (shared (sys s)) reading io) else None)"
| "perform mc ct_eq expose tempfile_in to_vec password path (Close i) s =
     (if i < length (tasks s) \<and> \<not> ended (tasks s ! i) \<and> frames (tasks s ! i) = []
      then with_task s i (Some ((tasks s ! i)\<lparr>ended := True\<rparr>, shared (sys s))) else None)"
| "perform mc ct_eq expose tempfile_in to_vec password path (Join i) s =
     (if i < length (tasks s) \<and> ended (tasks s ! i) \<and> \<not> quiet (phase s)
      then Some (s\<lparr>tasks := take i (tasks s) @ drop (Suc i) (tasks s)\<rparr>) else None)"
| "perform mc ct_eq expose tempfile_in to_vec password path Cancel s = Some (s\<lparr>token := True\<rparr>)"
| "perform mc ct_eq expose tempfile_in to_vec password path StopAccepting s =
     (if phase s = Accepting \<and> token s then Some (s\<lparr>phase := Draining (clock (sys s) + duration_from_secs 3)\<rparr>) else None)"
| "perform mc ct_eq expose tempfile_in to_vec password path Drained s =
     (case phase s of Draining deadline \<Rightarrow> if tasks s = [] then Some (s\<lparr>phase := Saving\<rparr>) else None | _ \<Rightarrow> None)"
| "perform mc ct_eq expose tempfile_in to_vec password path TimedOut s =
     (case phase s of
        Draining deadline \<Rightarrow> if deadline \<le> clock (sys s) then Some (s\<lparr>phase := Aborting\<rparr>) else None | _ \<Rightarrow> None)"
| "perform mc ct_eq expose tempfile_in to_vec password path (AbortTask i) s =
     (if phase s = Aborting \<and> i < length (tasks s)
      then Some (s\<lparr>tasks := (tasks s)[i := (tasks s ! i)\<lparr>ended := True\<rparr>]\<rparr>) else None)"
| "perform mc ct_eq expose tempfile_in to_vec password path Aborted s =
     (if phase s = Aborting \<and> tasks s = [] then Some (s\<lparr>phase := Saving\<rparr>) else None)"
| "perform mc ct_eq expose tempfile_in to_vec password path (Save faults clk now) s =
     (if phase s = Saving \<and> now \<le> clock (sys s)
      then (case final_save tempfile_in to_vec path faults clk now (shared (sys s)) (disk s) of
        (res, d) \<Rightarrow> Some (s\<lparr>phase := Finished res, disk := d\<rparr>)) else None)"
| "perform mc ct_eq expose tempfile_in to_vec password path (Background timer) s =
     map_option (\<lambda>y. s\<lparr>sys := y\<rparr>) (perform_sweeper (sys s) timer)"
| "perform mc ct_eq expose tempfile_in to_vec password path (Advance now) s =
     (if clock (sys s) \<le> now then Some (s\<lparr>sys := (sys s)\<lparr>clock := now\<rparr>\<rparr>) else None)"

fun perform_all ::
  "(u8 \<Rightarrow> bytes \<Rightarrow> nat option) \<Rightarrow> (bytes \<Rightarrow> bytes \<Rightarrow> bool) \<Rightarrow> ('sec \<Rightarrow> bytes) \<Rightarrow>
   (Path \<Rightarrow> Disk \<Rightarrow> io_error + string list) \<Rightarrow> (Snapshot \<Rightarrow> 'json + bytes) \<Rightarrow> 'sec option \<Rightarrow> Path option \<Rightarrow>
   Move list \<Rightarrow> ('sec, 'json) Server \<Rightarrow> ('sec, 'json) Server option"
where
  "perform_all mc ct_eq expose tempfile_in to_vec password path [] s = Some s"
| "perform_all mc ct_eq expose tempfile_in to_vec password path (mv # mvs) s =
     Option.bind (perform mc ct_eq expose tempfile_in to_vec password path mv s)
       (perform_all mc ct_eq expose tempfile_in to_vec password path mvs)"

section \<open>Moves are steps\<close>

lemma is_del_iff: "is_del f \<longleftrightarrow> (\<exists>k. Command_try_from f = Inr (DEL k))"
  by (simp add: is_del_def split: sum.split Command.split)

lemma perform_sweeper_iff: "(\<exists>timer. perform_sweeper s timer = Some s') \<longleftrightarrow> sweeper_step s s'"
proof
  assume "\<exists>timer. perform_sweeper s timer = Some s'"
  then show "sweeper_step s s'"
    by (cases "pc s") (auto simp: perform_sweeper_def split: if_splits option.splits prod.splits intro: sweeper_step.intros)
next
  assume "sweeper_step s s'"
  then show "\<exists>timer. perform_sweeper s timer = Some s'"
  proof (cases rule: sweeper_step.cases)
    case wake_timer
    then show ?thesis by (intro exI [of _ True]) (simp add: perform_sweeper_def)
  next
    case wake_notified
    then show ?thesis by (intro exI [of _ False]) (simp add: perform_sweeper_def)
  qed (auto simp: perform_sweeper_def)
qed

lemma perform_receive_step:
  assumes "perform_receive mc t bs = Some t'"
  shows "task_step mc ct ex tok now t s t' s"
proof (cases "parse_frames mc (parser (session t)) bs")
  case None
  with assms show ?thesis by (auto simp: perform_receive_def split: if_splits intro: task_read_panic)
next
  case (Some r)
  with assms show ?thesis by (cases r) (auto simp: perform_receive_def simp del: not_None_eq split: if_splits intro: task_read)
qed

lemma perform_serve_step:
  assumes "perform_serve ct ex now t s reading io = Some (t', s')"
  shows "task_step mc ct ex tok now t s t' s'"
  using assms by (auto simp: perform_serve_def is_del_iff simp del: not_None_eq split: list.splits if_splits prod.splits intro: task_frame)

lemma connection_step:
  assumes "with_task s i r = Some s'" "i < length (tasks s)"
    and "\<And>t st. r = Some (t, st) \<Longrightarrow> task_step mc ct ex (token s) (clock (sys s)) (tasks s ! i) (shared (sys s)) t st"
  shows "server_step mc ct ex tempfile_in to_vec password path s s'"
  using assms by (auto simp: with_task_def intro: connection)

lemma perform_step:
  assumes "perform mc ct ex tempfile_in to_vec password path mv s = Some s'"
  shows "server_step mc ct ex tempfile_in to_vec password path s s'"
proof (cases mv)
  case (Receive i bs)
  with assms show ?thesis by (auto split: if_splits elim!: connection_step intro: perform_receive_step)
next
  case (Serve i reading io)
  with assms show ?thesis by (auto split: if_splits elim!: connection_step intro: perform_serve_step)
next
  case (Close i)
  with assms show ?thesis by (auto split: if_splits elim!: connection_step intro: task_closed)
next
  case (Join i)
  with assms show ?thesis by (auto simp: quiet_def split: if_splits Phase.splits intro: join)
next
  case (Background timer)
  with assms perform_sweeper_iff [of "sys s"] show ?thesis by (auto intro: background)
qed (use assms in \<open>auto split: if_splits Phase.splits prod.splits intro: server_step.intros\<close>)

lemma perform_all_steps:
  "perform_all mc ct ex tempfile_in to_vec password path mvs s = Some s' \<Longrightarrow>
     (server_step mc ct ex tempfile_in to_vec password path)\<^sup>*\<^sup>* s s'"
proof (induction mvs arbitrary: s)
  case (Cons mv mvs)
  then show ?case by (auto simp: bind_eq_Some_conv intro: converse_rtranclp_into_rtranclp perform_step)
qed simp

section \<open>Steps are moves\<close>

lemma task_step_performed:
  assumes "task_step mc ct ex (token s) (clock (sys s)) (tasks s ! i) (shared (sys s)) t st" "i < length (tasks s)"
  shows "\<exists>mv. perform mc ct ex tempfile_in to_vec password path mv s = Some (s\<lparr>sys := (sys s)\<lparr>shared := st\<rparr>, tasks := (tasks s)[i := t]\<rparr>)"
  using assms(1)
proof (cases rule: task_step.cases)
  case (task_read bs p fs e)
  with assms(2) show ?thesis by (intro exI [of _ "Receive i bs"]) (simp add: with_task_def perform_receive_def)
next
  case (task_read_panic bs)
  with assms(2) show ?thesis by (intro exI [of _ "Receive i bs"]) (simp add: with_task_def perform_receive_def)
next
  case (task_frame f fs reading io y exit)
  with assms(2) show ?thesis
    by (intro exI [of _ "Serve i reading io"]) (simp add: with_task_def perform_serve_def is_del_iff)
qed (use assms(2) in \<open>auto simp: with_task_def intro!: exI [of _ "Close i"]\<close>)

lemma step_performed:
  assumes "server_step mc ct ex tempfile_in to_vec password path s s'"
  shows "\<exists>mv. perform mc ct ex tempfile_in to_vec password path mv s = Some s'"
  using assms
proof (cases rule: server_step.cases)
  case accept
  then show ?thesis by (intro exI [of _ Accept]) simp
next
  case (connection i t st)
  with task_step_performed show ?thesis by blast
next
  case (join i)
  then show ?thesis by (intro exI [of _ "Join i"]) (auto simp: quiet_def)
next
  case cancel
  then show ?thesis by (intro exI [of _ Cancel]) simp
next
  case stop_accepting
  then show ?thesis by (intro exI [of _ StopAccepting]) simp
next
  case (drained deadline)
  then show ?thesis by (intro exI [of _ Drained]) simp
next
  case (timed_out deadline)
  then show ?thesis by (intro exI [of _ TimedOut]) simp
next
  case (abort_task i)
  then show ?thesis by (intro exI [of _ "AbortTask i"]) simp
next
  case aborted
  then show ?thesis by (intro exI [of _ Aborted]) simp
next
  case (save_archive now faults clk res d)
  then show ?thesis by (intro exI [of _ "Save faults clk now"]) simp
next
  case (background y)
  then obtain timer where "perform_sweeper (sys s) timer = Some y" using perform_sweeper_iff by blast
  with background show ?thesis by (intro exI [of _ "Background timer"]) simp
next
  case (time now)
  then show ?thesis by (intro exI [of _ "Advance now"]) simp
qed

lemma perform_all_append:
  "perform_all mc ct ex tempfile_in to_vec password path (xs @ ys) s =
     Option.bind (perform_all mc ct ex tempfile_in to_vec password path xs s) (perform_all mc ct ex tempfile_in to_vec password path ys)"
proof (induction xs arbitrary: s)
  case (Cons mv xs)
  then show ?case by (cases "perform mc ct ex tempfile_in to_vec password path mv s") simp_all
qed simp

lemma steps_performed:
  assumes "(server_step mc ct ex tempfile_in to_vec password path)\<^sup>*\<^sup>* s s'"
  shows "\<exists>mvs. perform_all mc ct ex tempfile_in to_vec password path mvs s = Some s'"
  using assms
proof (induction rule: rtranclp_induct)
  case base
  show ?case by (intro exI [of _ "[]"]) simp
next
  case (step t u)
  then obtain mvs mv where "perform_all mc ct ex tempfile_in to_vec password path mvs s = Some t"
    "perform mc ct ex tempfile_in to_vec password path mv t = Some u" using step_performed by blast
  then show ?case by (intro exI [of _ "mvs @ [mv]"]) (simp add: perform_all_append)
qed

end
