(* ===== verification/Conformance_Server.thy ===== *)
theory Conformance_Server
  imports Conformance Server_Runs
begin

text \<open>
  The end-to-end tests (\<open>src/tests\<close>) as data, evaluated on the model of the whole server: a test starts the
  server with \<open>run_server\<close>, a client connects and writes its calls one by one, and the bytes written back
  are compared. The moves of the server that answer a call are computed, not chosen: they agree with
  \<open>Connection::run\<close> (lemma \<open>client_calls_run\<close>).
\<close>

section \<open>A server and its client\<close>

definition setup_test_server_with_archive :: "Path option \<Rightarrow> (string ServerError + (bytes, string) Server) option" where
  "setup_test_server_with_archive path =
     run_server json_from_slice None None \<lparr>sys_time = Some 0, mono = 0\<rparr> (\<lambda>_. \<lparr>sys_time = Some 0, mono = 0\<rparr>) None (disk_with None)
       \<lparr>address = (), port = 0, archive_path = path, config_password = (None :: bytes option)\<rparr>"

lemma setup_test_server:
  "path = None \<or> path = Some db_path \<Longrightarrow> setup_test_server_with_archive path = Some (Inr (idle_server Store_new 0))"
  by (auto simp: setup_test_server_with_archive_def run_server_def load_def fs_eval db_path_def server_start_def idle_server_def)

abbreviation test_move :: "Path option \<Rightarrow> Move \<Rightarrow> (bytes, string) Server \<Rightarrow> (bytes, string) Server option" where
  "test_move path \<equiv> perform index_of (=) id fresh_temp json_to_vec None path"

fun serve_all :: "Path option \<Rightarrow> nat \<Rightarrow> nat \<Rightarrow> (bytes, string) Server \<Rightarrow> (bytes, string) Server option" where
  "serve_all path i 0 s = Some s"
| "serve_all path i (Suc n) s =
     (if ended (tasks s ! i) then Some s
      else Option.bind (test_move path (Serve i (clock (sys s)) None) s) (serve_all path i n))"

text \<open>\<open>TestClient::write\<close> with the answers of the server.\<close>

definition client_call :: "Path option \<Rightarrow> nat \<Rightarrow> bytes \<Rightarrow> (bytes, string) Server \<Rightarrow> (bytes, string) Server option" where
  "client_call path i bs s =
     Option.bind (test_move path (Receive i bs) s) (\<lambda>s1.
     Option.bind (serve_all path i (length (frames (tasks s1 ! i))) s1) (\<lambda>s2.
       if halting (tasks s2 ! i) \<and> \<not> ended (tasks s2 ! i) then test_move path (Close i) s2 else Some s2))"

fun client_calls :: "Path option \<Rightarrow> nat \<Rightarrow> bytes list \<Rightarrow> (bytes, string) Server \<Rightarrow> (bytes, string) Server option" where
  "client_calls path i [] s = Some s"
| "client_calls path i (bs # cs) s =
     (if ended (tasks s ! i) then Some s else Option.bind (client_call path i bs s) (client_calls path i cs))"

section \<open>The client talks to the handler\<close>

text \<open>The server after its task \<open>i\<close> has become \<open>t\<close> and the shared store that of session \<open>y\<close>.\<close>

definition task_at :: "(bytes, string) Server \<Rightarrow> nat \<Rightarrow> bytes Session \<Rightarrow> bytes Task \<Rightarrow> (bytes, string) Server" where
  "task_at s i y t = s\<lparr>sys := (sys s)\<lparr>shared := store y\<rparr>, tasks := (tasks s)[i := t]\<rparr>"

lemma task_at_simps [simp]:
  "sys (task_at s i y t) = (sys s)\<lparr>shared := store y\<rparr>" "i < length (tasks s) \<Longrightarrow> tasks (task_at s i y t) ! i = t"
  "length (tasks (task_at s i y t)) = length (tasks s)" "task_at (task_at s i y t) i y' t' = task_at s i y' t'"
  by (simp_all add: task_at_def)

lemma session_update_order [simp]: "x\<lparr>store := s, parser := p\<rparr> = (x :: 'sec Session)\<lparr>parser := p, store := s\<rparr>"
  by (cases x) simp

lemma serve_all_run:
  assumes "i < length (tasks s)" "clock (sys s) = 0" "\<not> ended (tasks s ! i)"
    and "run_frames (=) id test_env ((session (tasks s ! i))\<lparr>store := shared (sys s)\<rparr>) (frames (tasks s ! i)) = (y, exit)"
  shows "\<exists>t. serve_all path i (length (frames (tasks s ! i))) s = Some (task_at s i y t) \<and>
    (session t)\<lparr>store := store y\<rparr> = y \<and> halting t = halting (tasks s ! i) \<and> (ended t \<longleftrightarrow> exit \<noteq> None) \<and> (exit = None \<longrightarrow> frames t = [])"
  using assms
proof (induction "frames (tasks s ! i)" arbitrary: s)
  case Nil
  let ?t = "tasks s ! i"
  have "task_at s i y ?t = s" using Nil by (auto simp: task_at_def)
  with Nil show ?case by (intro exI [of _ ?t]) auto
next
  case (Cons f fs)
  let ?t = "tasks s ! i"
  note fs = Cons.hyps(2) [symmetric]
  obtain z e where z: "handle_frame (=) id test_env ((session ?t)\<lparr>store := shared (sys s)\<rparr>) f = (z, e)" by fastforce
  let ?t' = "?t\<lparr>session := z, frames := fs, ended := (e \<noteq> None)\<rparr>"
  have env: "\<lparr>env_clock = (\<lambda>_. 0), env_others = (\<lambda>_ s. s), env_write = (\<lambda>_. None)\<rparr> = test_env" by (simp add: test_env_def)
  have served: "test_move path (Serve i (clock (sys s)) None) s = Some (task_at s i z ?t')"
    using Cons.prems fs z by (simp add: with_task_def perform_serve_def task_at_def env)
  show ?case
  proof (cases e)
    case None
    have zz: "z\<lparr>store := store z\<rparr> = z" by simp
    from Cons.hyps(1) [of "task_at s i z ?t'"] None Cons.prems fs z served zz show ?thesis by simp
  next
    case (Some g)
    have stop: "serve_all path i n (task_at s i z ?t') = Some (task_at s i z ?t')" for n
      using Some Cons.prems(1) by (cases n) simp_all
    from Some Cons.prems fs z served stop show ?thesis by (intro exI [of _ ?t']) auto
  qed
qed

lemma run_Cons:
  "run mc ct ex env x (Read bs # is) =
     (case run mc ct ex env x [Read bs] of (z, Some e) \<Rightarrow> (z, Some e) | (z, None) \<Rightarrow> run mc ct ex env z is)"
  by (auto split: option.split prod.split)

lemma client_call_run:
  assumes "run index_of (=) id test_env ((session (tasks s ! i))\<lparr>store := shared (sys s)\<rparr>) [Read bs] = (z, e)"
    and "i < length (tasks s)" "clock (sys s) = 0" "\<not> ended (tasks s ! i)" "frames (tasks s ! i) = []" "\<not> halting (tasks s ! i)"
    and "bs \<noteq> []"
  shows "\<exists>t. client_call path i bs s = Some (task_at s i z t) \<and> (session t)\<lparr>store := store z\<rparr> = z \<and> (ended t \<longleftrightarrow> e \<noteq> None) \<and>
    (e = None \<longrightarrow> frames t = [] \<and> \<not> halting t)"
proof -
  let ?t = "tasks s ! i" and ?x = "(session (tasks s ! i))\<lparr>store := shared (sys s)\<rparr>"
  show ?thesis
  proof (cases "parse_frames index_of (parser (session ?t)) bs")
    case None
    then have z: "z = ?x" "e = Some TaskPanic" using assms(1,7) by auto
    have "test_move path (Receive i bs) s = Some (task_at s i ?x (?t\<lparr>received := received ?t @ bs, ended := True\<rparr>))"
      using None assms(2-7) by (simp add: with_task_def perform_receive_def task_at_def)
    moreover have "serve_all path i n (task_at s i ?x (?t\<lparr>received := received ?t @ bs, ended := True\<rparr>)) = Some (task_at s i ?x (?t\<lparr>received := received ?t @ bs, ended := True\<rparr>))" for n
      using assms(2) by (cases n) simp_all
    ultimately show ?thesis
      using assms(2) unfolding z by (intro exI [of _ "?t\<lparr>received := received ?t @ bs, ended := True\<rparr>"]) (simp add: client_call_def)
  next
    case (Some r)
    then obtain p fs h where p: "parse_frames index_of (parser (session ?t)) bs = Some (p, fs, h)" by (cases r) auto
    let ?t1 = "?t\<lparr>session := (session ?t)\<lparr>parser := p\<rparr>, received := received ?t @ bs, frames := fs, halting := (h \<noteq> None)\<rparr>"
    let ?s1 = "task_at s i ?x ?t1"
    have recv: "test_move path (Receive i bs) s = Some ?s1"
      using assms(2-7) p by (simp add: with_task_def perform_receive_def task_at_def)
    obtain y g where y: "run_frames (=) id test_env (?x\<lparr>parser := p\<rparr>) fs = (y, g)" by fastforce
    have z: "z = y" "e = (if g = None \<and> h \<noteq> None then Some ReturnOk else g)"
      using assms(1,7) p y by (auto split: option.splits if_splits)
    have "run_frames (=) id test_env ((session (tasks ?s1 ! i))\<lparr>store := shared (sys ?s1)\<rparr>) (frames (tasks ?s1 ! i)) = (y, g)"
      using assms(2) y by simp
    then have "\<exists>t. serve_all path i (length fs) ?s1 = Some (task_at s i y t) \<and> (session t)\<lparr>store := store y\<rparr> = y \<and>
        (halting t \<longleftrightarrow> h \<noteq> None) \<and> (ended t \<longleftrightarrow> g \<noteq> None) \<and> (g = None \<longrightarrow> frames t = [])"
      using serve_all_run [of i ?s1 y g path] assms(2-4) by simp
    then obtain t where t: "serve_all path i (length fs) ?s1 = Some (task_at s i y t)" "(session t)\<lparr>store := store y\<rparr> = y"
      "halting t \<longleftrightarrow> h \<noteq> None" "ended t \<longleftrightarrow> g \<noteq> None" "g = None \<longrightarrow> frames t = []"
      by (elim exE conjE)
    have "client_call path i bs s = Some (task_at s i y (if g = None \<and> h \<noteq> None then t\<lparr>ended := True\<rparr> else t))"
      using recv t assms(2) by (auto simp: client_call_def with_task_def task_at_def)
    then show ?thesis
      unfolding z using t by (intro exI [of _ "if g = None \<and> h \<noteq> None then t\<lparr>ended := True\<rparr> else t"]) auto
  qed
qed

lemma client_calls_run:
  assumes "run index_of (=) id test_env ((session (tasks s ! i))\<lparr>store := shared (sys s)\<rparr>) (map Read cs) = (y, exit)"
    and "i < length (tasks s)" "clock (sys s) = 0" "\<not> ended (tasks s ! i)" "frames (tasks s ! i) = []" "\<not> halting (tasks s ! i)"
    and "[] \<notin> set cs"
  shows "\<exists>t. client_calls path i cs s = Some (task_at s i y t) \<and> (session t)\<lparr>store := store y\<rparr> = y \<and> (ended t \<longleftrightarrow> exit \<noteq> None) \<and>
    (exit = None \<longrightarrow> frames t = [])"
  using assms
proof (induction cs arbitrary: s)
  case Nil
  let ?t = "tasks s ! i"
  have "task_at s i y ?t = s" using Nil by (auto simp: task_at_def)
  with Nil show ?case by (intro exI [of _ ?t]) auto
next
  case (Cons bs cs)
  let ?x = "(session (tasks s ! i))\<lparr>store := shared (sys s)\<rparr>"
  have ne: "bs \<noteq> []" using Cons.prems(7) by auto
  obtain z e where z: "run index_of (=) id test_env ?x [Read bs] = (z, e)" by fastforce
  obtain t where t: "client_call path i bs s = Some (task_at s i z t)" "(session t)\<lparr>store := store z\<rparr> = z" "ended t \<longleftrightarrow> e \<noteq> None"
    "e = None \<longrightarrow> frames t = [] \<and> \<not> halting t"
    using client_call_run [OF z Cons.prems(2-6) ne, of path] by (elim exE conjE)
  have rest: "(case (z, e) of (z, Some e) \<Rightarrow> (z, Some e) | (z, None) \<Rightarrow> run index_of (=) id test_env z (map Read cs)) = (y, exit)"
    by (rule trans [OF run_Cons [of index_of "(=)" id test_env ?x bs "map Read cs", unfolded z, symmetric]
          Cons.prems(1) [unfolded list.map]])
  have step: "client_calls path i (bs # cs) s = client_calls path i cs (task_at s i z t)"
    using Cons.prems(4) t(1) by simp
  show ?case
  proof (cases e)
    case None
    with rest t(2) Cons.prems(2) have "run index_of (=) id test_env
        ((session (tasks (task_at s i z t) ! i))\<lparr>store := shared (sys (task_at s i z t))\<rparr>) (map Read cs) = (y, exit)" by simp
    from Cons.IH [OF this] None Cons.prems t(3,4) show ?thesis unfolding step by simp
  next
    case (Some g)
    then have "client_calls path i cs (task_at s i z t) = Some (task_at s i z t)"
      using t(3) Cons.prems(2) by (cases cs) simp_all
    with Some rest t(2,3) show ?thesis unfolding step by auto
  qed
qed

section \<open>Sessions with the server\<close>

text \<open>A client connects, makes its calls and gets the responses; \<open>send_quit\<close> ends its session.\<close>

definition e2e_test :: "(bytes \<times> Frame list) list \<Rightarrow> bool" where
  "e2e_test cases =
     (case setup_test_server_with_archive None of
        Some (Inr s) \<Rightarrow>
          (case Option.bind (test_move None Accept s) (client_calls None 0 (map fst cases)) of
             Some s' \<Rightarrow> written (conn (session (tasks s' ! 0))) = concat (map to_bytes (concat (map snd cases))) \<and> ended (tasks s' ! 0)
           | None \<Rightarrow> False)
      | _ \<Rightarrow> False)"

definition e2e_sequential :: "(bytes \<times> Frame list) list" where
  "e2e_sequential =
    [(''*1'' @ CRLF @ ''$4'' @ CRLF @ ''PING'' @ CRLF, [SimpleString ''PONG'']),
     (''*3'' @ CRLF @ ''$3'' @ CRLF @ ''SET'' @ CRLF @ ''$5'' @ CRLF @ ''mykey'' @ CRLF @ ''$7'' @ CRLF @ ''myvalue'' @ CRLF, [SimpleString ''OK'']),
     (''*2'' @ CRLF @ ''$3'' @ CRLF @ ''GET'' @ CRLF @ ''$5'' @ CRLF @ ''mykey'' @ CRLF, [Bulk (Some ''myvalue'')]),
     (''*2'' @ CRLF @ ''$3'' @ CRLF @ ''GET'' @ CRLF @ ''$8'' @ CRLF @ ''otherkey'' @ CRLF, [Bulk None]),
     (''*2'' @ CRLF @ ''$3'' @ CRLF @ ''DEL'' @ CRLF @ ''$5'' @ CRLF @ ''mykey'' @ CRLF, [Integer 1]),
     (''*2'' @ CRLF @ ''$3'' @ CRLF @ ''DEL'' @ CRLF @ ''$5'' @ CRLF @ ''mykey'' @ CRLF, [Integer 0]),
     (''*1'' @ CRLF @ ''$3'' @ CRLF @ ''FOO'' @ CRLF, [SimpleError ''Unknown Command'']),
     (''*4'' @ CRLF @ ''$3'' @ CRLF @ ''SET'' @ CRLF @ ''$5'' @ CRLF @ ''mykey'' @ CRLF @ ''$7'' @ CRLF @ ''myvalue'' @ CRLF @ ''$8'' @ CRLF @ ''too many'' @ CRLF, [SimpleError ''Wrong number of arguments'']),
     (''*1'' @ CRLF @ ''$3'' @ CRLF @ ''GET'' @ CRLF, [SimpleError ''Wrong number of arguments'']),
     (''*1'' @ CRLF @ ''$4'' @ CRLF @ ''QUIT'' @ CRLF, [])]"

definition e2e_inline_terminal_requests :: "(bytes \<times> Frame list) list" where
  "e2e_inline_terminal_requests =
    [(''PING'' @ [LF], [SimpleString ''PONG'']),
     (''SET mykey myvalue'' @ [LF], [SimpleString ''OK'']),
     (''GET mykey'' @ [LF], [Bulk (Some ''myvalue'')]),
     (''GET otherkey'' @ [LF], [Bulk None]),
     (''DEL mykey'' @ [LF], [Integer 1]),
     (''DEL mykey'' @ [LF], [Integer 0]),
     (''FOO'' @ [LF], [SimpleError ''Unknown Command'']),
     (''SET mykey myvalue too many'' @ [LF], [SimpleError ''Wrong number of arguments'']),
     (''GET'' @ [LF], [SimpleError ''Wrong number of arguments'']),
     (''*1'' @ CRLF @ ''$4'' @ CRLF @ ''QUIT'' @ CRLF, [])]"

definition e2e_blank_line_gets_no_response :: "(bytes \<times> Frame list) list" where
  "e2e_blank_line_gets_no_response =
    [([LF], []),
     (''*1'' @ CRLF @ ''$4'' @ CRLF @ ''PING'' @ CRLF, [SimpleString ''PONG'']),
     (''*1'' @ CRLF @ ''$4'' @ CRLF @ ''QUIT'' @ CRLF, [])]"

definition e2e_partial_success_then_close :: "(bytes \<times> Frame list) list" where
  "e2e_partial_success_then_close =
    [(''*1'' @ CRLF @ ''$4'' @ CRLF @ ''PING'' @ CRLF @ ''$-2'' @ CRLF, [SimpleString ''PONG''])]"

definition e2e_malformed_first_frame_closes_without_response :: "(bytes \<times> Frame list) list" where
  "e2e_malformed_first_frame_closes_without_response =
    [(''*-2'' @ CRLF, [])]"

definition e2e_invalid_command_frame_closes_connection :: "(bytes \<times> Frame list) list" where
  "e2e_invalid_command_frame_closes_connection =
    [(''*1'' @ CRLF @ '':1'' @ CRLF, [])]"

definition e2e_unknown_command_does_not_close_connection :: "(bytes \<times> Frame list) list" where
  "e2e_unknown_command_does_not_close_connection =
    [(''*1'' @ CRLF @ ''$3'' @ CRLF @ ''FOO'' @ CRLF, [SimpleError ''Unknown Command'']),
     (''*1'' @ CRLF @ ''$4'' @ CRLF @ ''PING'' @ CRLF, [SimpleString ''PONG'']),
     (''*1'' @ CRLF @ ''$4'' @ CRLF @ ''QUIT'' @ CRLF, [])]"

definition e2e_wrong_arity_does_not_close_connection :: "(bytes \<times> Frame list) list" where
  "e2e_wrong_arity_does_not_close_connection =
    [(''*1'' @ CRLF @ ''$3'' @ CRLF @ ''GET'' @ CRLF, [SimpleError ''Wrong number of arguments'']),
     (''*1'' @ CRLF @ ''$4'' @ CRLF @ ''PING'' @ CRLF, [SimpleString ''PONG'']),
     (''*1'' @ CRLF @ ''$4'' @ CRLF @ ''QUIT'' @ CRLF, [])]"

definition e2e_multiple_frames_in_one_write :: "(bytes \<times> Frame list) list" where
  "e2e_multiple_frames_in_one_write =
    [(''*1'' @ CRLF @ ''$4'' @ CRLF @ ''PING'' @ CRLF @ ''*1'' @ CRLF @ ''$4'' @ CRLF @ ''PING'' @ CRLF, [SimpleString ''PONG'', SimpleString ''PONG'']),
     (''*1'' @ CRLF @ ''$4'' @ CRLF @ ''QUIT'' @ CRLF, [])]"

definition e2e_inline_and_resp_can_be_mixed :: "(bytes \<times> Frame list) list" where
  "e2e_inline_and_resp_can_be_mixed =
    [(''PING'' @ [LF], [SimpleString ''PONG'']),
     (''*3'' @ CRLF @ ''$3'' @ CRLF @ ''SET'' @ CRLF @ ''$5'' @ CRLF @ ''mixed'' @ CRLF @ ''$5'' @ CRLF @ ''value'' @ CRLF, [SimpleString ''OK'']),
     (''GET mixed'' @ [LF], [Bulk (Some ''value'')]),
     (''*1'' @ CRLF @ ''$4'' @ CRLF @ ''QUIT'' @ CRLF, [])]"

definition e2e_split_frame_writes_are_reassembled :: "(bytes \<times> Frame list) list" where
  "e2e_split_frame_writes_are_reassembled =
    [(''*3'' @ CRLF @ ''$3'' @ CRLF @ ''SET'' @ CRLF, []),
     (''$5'' @ CRLF @ ''split'' @ CRLF, []),
     (''$5'' @ CRLF @ ''value'' @ CRLF, [SimpleString ''OK'']),
     (''*2'' @ CRLF @ ''$3'' @ CRLF @ ''GET'' @ CRLF, []),
     (''$5'' @ CRLF @ ''split'' @ CRLF, [Bulk (Some ''value'')]),
     (''*1'' @ CRLF @ ''$4'' @ CRLF @ ''QUIT'' @ CRLF, [])]"

lemma e2e_test_run:
  assumes "parse_frames index_of Parser_new (concat (map fst cases)) = Some (q, fs, halt)" "[] \<notin> set (map fst cases)"
    and "run_frames (=) id test_env (session_start None Store_new) fs = (y, exit)" "exit \<noteq> None \<or> halt \<noteq> None"
    and "written (conn y) = concat (map to_bytes (concat (map snd cases)))"
  shows "e2e_test cases"
proof -
  let ?s = "(idle_server Store_new 0)\<lparr>tasks := [spawn_connection None]\<rparr>"
  let ?x = "session_start None Store_new :: bytes Session"
  have x: "(session (tasks ?s ! 0))\<lparr>store := shared (sys ?s)\<rparr> = ?x"
    by (simp add: spawn_connection_def session_start_def idle_server_def)
  have "settled (parser ?x)" and p: "parse_frames index_of (parser ?x) (concat (map fst cases)) = Some (q, fs, halt)"
    using assms(1) by (simp_all add: session_start_def)
  then obtain p where "run index_of (=) id test_env ?x (map Read (map fst cases)) =
      (y\<lparr>parser := p\<rparr>, if exit = None \<and> halt \<noteq> None then Some ReturnOk else exit)"
    using run_reads [OF index_of_memchr _ assms(2) p assms(3)] by blast
  note run = this
  have start: "0 < length (tasks ?s)" "clock (sys ?s) = 0" "\<not> ended (tasks ?s ! 0)" "frames (tasks ?s ! 0) = []" "\<not> halting (tasks ?s ! 0)"
    by (simp_all add: spawn_connection_def idle_server_def)
  obtain t where t: "client_calls None 0 (map fst cases) ?s = Some (task_at ?s 0 (y\<lparr>parser := p\<rparr>) t)"
    "(session t)\<lparr>store := store (y\<lparr>parser := p\<rparr>)\<rparr> = y\<lparr>parser := p\<rparr>"
    "ended t \<longleftrightarrow> (if exit = None \<and> halt \<noteq> None then Some ReturnOk else exit) \<noteq> None"
    using client_calls_run [of ?s 0, unfolded x, OF run start assms(2), of None] by (elim exE conjE)
  have "conn ((session t)\<lparr>store := store (y\<lparr>parser := p\<rparr>)\<rparr>) = conn y" unfolding t(2) by simp
  then have "conn (session t) = conn y" by simp
  moreover have "ended t" using t(3) assms(4) by auto
  moreover have "test_move None Accept (idle_server Store_new 0) = Some ?s" by (simp add: idle_server_def)
  ultimately show ?thesis using assms(5) t(1) by (simp add: e2e_test_def setup_test_server)
qed

lemma e2e_testI:
  assumes "map_option snd (parse_frames index_of Parser_new (concat (map fst cases))) = Some (fs, halt)" "[] \<notin> set (map fst cases)"
    and "\<exists>y exit. run_frames (=) id test_env (session_start None Store_new) fs = (y, exit) \<and> (exit \<noteq> None \<or> halt \<noteq> None) \<and>
      written (conn y) = concat (map to_bytes (concat (map snd cases)))"
  shows "e2e_test cases"
  using assms e2e_test_run by (auto simp: map_option_case split: option.splits)

lemma e2e_test_encodedI:
  assumes "concat (map fst cases) = concat (map to_bytes fs)" "\<forall>f \<in> set fs. wf_frame f" "[] \<notin> set (map fst cases)"
    and "\<exists>y exit. run_frames (=) id test_env (session_start None Store_new) fs = (y, exit) \<and> (exit \<noteq> None \<or> None \<noteq> (None :: ParseError option)) \<and>
      written (conn y) = concat (map to_bytes (concat (map snd cases)))"
  shows "e2e_test cases"
  using e2e_testI [OF _ assms(3,4)] parse_frames_encoded [OF assms(2), of index_of] assms(1) by simp

lemmas answer_eval = session_eval foo_unknown nat_to_string.simps digit_char_def int_to_string_def

lemma e2e_sequential_passes: "e2e_test e2e_sequential"
  by (rule e2e_test_encodedI [where fs = "[request_frame ''PING'' [],
      request_frame ''SET'' [''mykey'', ''myvalue''],
      request_frame ''GET'' [''mykey''],
      request_frame ''GET'' [''otherkey''],
      request_frame ''DEL'' [''mykey''],
      request_frame ''DEL'' [''mykey''],
      request_frame ''FOO'' [],
      request_frame ''SET'' [''mykey'', ''myvalue'', ''too many''],
      request_frame ''GET'' [],
      request_frame ''QUIT'' []]"])
    (simp add: e2e_sequential_def bytes_eval, simp add: bytes_eval, simp add: e2e_sequential_def, simp add: e2e_sequential_def answer_eval)

lemma e2e_unknown_command_does_not_close_connection_passes: "e2e_test e2e_unknown_command_does_not_close_connection"
  by (rule e2e_test_encodedI [where fs = "[request_frame ''FOO'' [],
      request_frame ''PING'' [],
      request_frame ''QUIT'' []]"])
    (simp add: e2e_unknown_command_does_not_close_connection_def bytes_eval, simp add: bytes_eval, simp add: e2e_unknown_command_does_not_close_connection_def, simp add: e2e_unknown_command_does_not_close_connection_def answer_eval)

lemma e2e_wrong_arity_does_not_close_connection_passes: "e2e_test e2e_wrong_arity_does_not_close_connection"
  by (rule e2e_test_encodedI [where fs = "[request_frame ''GET'' [],
      request_frame ''PING'' [],
      request_frame ''QUIT'' []]"])
    (simp add: e2e_wrong_arity_does_not_close_connection_def bytes_eval, simp add: bytes_eval, simp add: e2e_wrong_arity_does_not_close_connection_def, simp add: e2e_wrong_arity_does_not_close_connection_def answer_eval)

lemma e2e_multiple_frames_in_one_write_passes: "e2e_test e2e_multiple_frames_in_one_write"
  by (rule e2e_test_encodedI [where fs = "[request_frame ''PING'' [],
      request_frame ''PING'' [],
      request_frame ''QUIT'' []]"])
    (simp add: e2e_multiple_frames_in_one_write_def bytes_eval, simp add: bytes_eval, simp add: e2e_multiple_frames_in_one_write_def, simp add: e2e_multiple_frames_in_one_write_def answer_eval)

lemma e2e_split_frame_writes_are_reassembled_passes: "e2e_test e2e_split_frame_writes_are_reassembled"
  by (rule e2e_test_encodedI [where fs = "[request_frame ''SET'' [''split'', ''value''],
      request_frame ''GET'' [''split''],
      request_frame ''QUIT'' []]"])
    (simp add: e2e_split_frame_writes_are_reassembled_def bytes_eval, simp add: bytes_eval, simp add: e2e_split_frame_writes_are_reassembled_def, simp add: e2e_split_frame_writes_are_reassembled_def answer_eval)

lemma e2e_inline_terminal_requests_passes: "e2e_test e2e_inline_terminal_requests"
  by (rule e2e_testI [where fs = "[request_frame ''PING'' [],
      request_frame ''SET'' [''mykey'', ''myvalue''],
      request_frame ''GET'' [''mykey''],
      request_frame ''GET'' [''otherkey''],
      request_frame ''DEL'' [''mykey''],
      request_frame ''DEL'' [''mykey''],
      request_frame ''FOO'' [],
      request_frame ''SET'' [''mykey'', ''myvalue'', ''too'', ''many''],
      request_frame ''GET'' [],
      request_frame ''QUIT'' []]" and halt = "None"])
    (simp add: e2e_inline_terminal_requests_def parse_frames_def parser_eval request_frame_def, simp add: e2e_inline_terminal_requests_def, simp add: e2e_inline_terminal_requests_def answer_eval)

lemma e2e_blank_line_gets_no_response_passes: "e2e_test e2e_blank_line_gets_no_response"
  by (rule e2e_testI [where fs = "[request_frame ''PING'' [],
      request_frame ''QUIT'' []]" and halt = "None"])
    (simp add: e2e_blank_line_gets_no_response_def parse_frames_def parser_eval request_frame_def, simp add: e2e_blank_line_gets_no_response_def, simp add: e2e_blank_line_gets_no_response_def answer_eval)

lemma e2e_partial_success_then_close_passes: "e2e_test e2e_partial_success_then_close"
  by (rule e2e_testI [where fs = "[request_frame ''PING'' []]" and halt = "Some InvalidLength"])
    (simp add: e2e_partial_success_then_close_def parse_frames_def parser_eval request_frame_def, simp add: e2e_partial_success_then_close_def, simp add: e2e_partial_success_then_close_def answer_eval)

lemma e2e_malformed_first_frame_closes_without_response_passes: "e2e_test e2e_malformed_first_frame_closes_without_response"
  by (rule e2e_testI [where fs = "[]" and halt = "Some InvalidLength"])
    (simp add: e2e_malformed_first_frame_closes_without_response_def parse_frames_def parser_eval request_frame_def, simp add: e2e_malformed_first_frame_closes_without_response_def, simp add: e2e_malformed_first_frame_closes_without_response_def answer_eval)

lemma e2e_invalid_command_frame_closes_connection_passes: "e2e_test e2e_invalid_command_frame_closes_connection"
  by (rule e2e_testI [where fs = "[Array (Some [Integer 1])]" and halt = "None"])
    (simp add: e2e_invalid_command_frame_closes_connection_def parse_frames_def parser_eval request_frame_def, simp add: e2e_invalid_command_frame_closes_connection_def, simp add: e2e_invalid_command_frame_closes_connection_def answer_eval Command_try_from_def bulk_args_def)

lemma e2e_inline_and_resp_can_be_mixed_passes: "e2e_test e2e_inline_and_resp_can_be_mixed"
  by (rule e2e_testI [where fs = "[request_frame ''PING'' [],
      request_frame ''SET'' [''mixed'', ''value''],
      request_frame ''GET'' [''mixed''],
      request_frame ''QUIT'' []]" and halt = "None"])
    (simp add: e2e_inline_and_resp_can_be_mixed_def parse_frames_def parser_eval request_frame_def, simp add: e2e_inline_and_resp_can_be_mixed_def, simp add: e2e_inline_and_resp_can_be_mixed_def answer_eval)

section \<open>Shutdown\<close>

text \<open>
  The server is told to stop while clients are connected: every connection ends at its next wait, the tasks are
  joined and the archive is written, all before the grace period ends. The tests give the number of
  clients and what the first of them has written before.
\<close>

definition shutdown_moves :: "nat \<Rightarrow> Move list" where
  "shutdown_moves n = [Cancel, StopAccepting] @ map Close [0..<n] @ replicate n (Join 0) @
     [Drained, Save no_faults (\<lambda>_. \<lparr>sys_time = Some 0, mono = 0\<rparr>) 0]"

abbreviation test_moves :: "Path option \<Rightarrow> Move list \<Rightarrow> (bytes, string) Server \<Rightarrow> (bytes, string) Server option" where
  "test_moves path \<equiv> perform_all index_of (=) id fresh_temp json_to_vec None path"

definition shutdown_run :: "Path option \<Rightarrow> nat \<Rightarrow> bytes list \<Rightarrow> (bytes, string) Server option" where
  "shutdown_run path n calls =
     (case setup_test_server_with_archive path of
        Some (Inr s) \<Rightarrow>
          Option.bind (test_moves path (replicate n Accept) s) (\<lambda>s1.
          Option.bind (client_calls path 0 calls s1) (test_moves path (shutdown_moves n)))
      | _ \<Rightarrow> None)"

definition shutdown_tests :: "(nat \<times> bytes list) list" where
  "shutdown_tests =
    [(0, []),
     (1, []),
     (3, []),
     (1, [''*2'' @ CRLF @ ''$3'' @ CRLF @ ''GET'' @ CRLF @ ''$5'' @ CRLF @ ''my''])]"

definition shutdown_persists_store_to_archive :: "bytes \<times> bytes \<times> bytes" where
  "shutdown_persists_store_to_archive =
     (''*3'' @ CRLF @ ''$3'' @ CRLF @ ''SET'' @ CRLF @ ''$7'' @ CRLF @ ''persist'' @ CRLF @ ''$5'' @ CRLF @ ''value'' @ CRLF,
      ''persist'', ''value'')"

text \<open>Closed connections, a finished server, and no way to connect.\<close>

definition shutdown_test :: "nat \<times> bytes list \<Rightarrow> bool" where
  "shutdown_test nc =
     (case shutdown_run None (fst nc) (snd nc) of
        Some s \<Rightarrow> phase s = Finished (Some (Inr ())) \<and> tasks s = [] \<and> test_move None Accept s = None
      | None \<Rightarrow> False)"

lemmas shutdown_eval = shutdown_run_def shutdown_moves_def setup_test_server with_task_def final_save_def
  spawn_connection_def quiet_def

lemma shutdown_idle_passes: "shutdown_test (0, [])" "shutdown_test (1, [])" "shutdown_test (3, [])"
  by (simp_all add: shutdown_test_def shutdown_eval idle_server_def numeral_3_eq_3 upt_rec)

lemma midstream_passes: "shutdown_test (1, [''*2'' @ CRLF @ ''$3'' @ CRLF @ ''GET'' @ CRLF @ ''$5'' @ CRLF @ ''my''])"
  by (simp add: shutdown_test_def shutdown_eval idle_server_def client_call_def perform_receive_def session_start_def
      parse_frames_def parser_eval)

lemma shutdown_tests_pass: "list_all shutdown_test shutdown_tests"
  using shutdown_idle_passes midstream_passes by (simp add: shutdown_tests_def)

lemma persist_call:
  "\<exists>t. client_calls (Some db_path) 0 [fst shutdown_persists_store_to_archive] ((idle_server Store_new 0)\<lparr>tasks := [spawn_connection None]\<rparr>) =
     Some ((idle_server (snd (Store_set Store_new ''persist'' ''value'')) 0)\<lparr>tasks := [t]\<rparr>) \<and> \<not> ended t \<and> frames t = []"
proof -
  let ?s = "(idle_server Store_new 0)\<lparr>tasks := [spawn_connection None]\<rparr>" and ?f = "request_frame ''SET'' [''persist'', ''value'']"
  let ?y = "session_start None (snd (Store_set Store_new ''persist'' ''value''))\<lparr>count := 1, conn := \<lparr>auth_password = None,
      authenticated = False, written = to_bytes (SimpleString ''OK'')\<rparr>\<rparr>"
  have x: "(session (tasks ?s ! 0))\<lparr>store := shared (sys ?s)\<rparr> = session_start None Store_new"
    by (simp add: spawn_connection_def session_start_def idle_server_def)
  have "fst shutdown_persists_store_to_archive = concat (map to_bytes [?f])"
    by (simp add: shutdown_persists_store_to_archive_def bytes_eval)
  then have "parse_frames index_of Parser_new (fst shutdown_persists_store_to_archive) = Some (Parser_new, [?f], None)"
    using parse_frames_encoded [of "[?f]" index_of] by (simp add: bytes_eval)
  moreover have "run_frames (=) id test_env (session_start None Store_new) [?f] = (?y, None)"
    by (simp add: answer_eval)
  moreover have "fst shutdown_persists_store_to_archive \<noteq> []" by (simp add: shutdown_persists_store_to_archive_def)
  ultimately have "run index_of (=) id test_env (session_start None Store_new) (map Read [fst shutdown_persists_store_to_archive]) = (?y, None)"
    by (simp add: session_start_def del: run_frames.simps)
  from client_calls_run [of ?s 0, unfolded x, OF this, of "Some db_path"] \<open>fst shutdown_persists_store_to_archive \<noteq> []\<close>
  show ?thesis by (auto simp: task_at_def idle_server_def spawn_connection_def session_start_def)
qed

lemma shutdown_persists_passes:
  "case shutdown_persists_store_to_archive of (call, k, v) \<Rightarrow>
     \<exists>s st. shutdown_run (Some db_path) 1 [call] = Some s \<and> phase s = Finished (Some (Inr ())) \<and>
       load json_from_slice \<lparr>sys_time = Some 0, mono = 0\<rparr> (\<lambda>_. \<lparr>sys_time = Some 0, mono = 0\<rparr>) None (disk s) db_path = Some (Inr st) \<and>
       Store_get st 0 k = Some v"
proof -
  let ?st = "snd (Store_set Store_new ''persist'' ''value'')" and ?clk = "\<lparr>sys_time = Some 0, mono = 0\<rparr> :: Clock"
  obtain t where t: "client_calls (Some db_path) 0 [fst shutdown_persists_store_to_archive]
      ((idle_server Store_new 0)\<lparr>tasks := [spawn_connection None]\<rparr>) = Some ((idle_server ?st 0)\<lparr>tasks := [t]\<rparr>)"
    "\<not> ended t" "frames t = []" using persist_call by blast
  have snap: "to_snapshot ?st 0 (\<lambda>_. ?clk) = Some \<lparr>entries = [\<lparr>entry_key = ''persist'',
      entry_value = \<lparr>snapshot_bytes = ''value'', expiration_time_unix = None\<rparr>\<rparr>]\<rparr>"
    by (simp add: to_snapshot_def Store_set_def Store_new_def from_parts_def hm_iter_def hm_new_def hm_insert_def hm_remove_def
        SnapshotValue_from_ref_def is_expired_def unix_now_millis_def)
  obtain ds where ds: "save fresh_temp no_faults json_to_vec 0 (\<lambda>_. ?clk) (disk_with None) db_path ?st = (Some (Inr ()), ds)"
    using snap by (simp add: save_def dump_def json_to_vec_def save_bytes_def fresh_temp_def db_path_def fs_eval)
  have "temp_law fresh_temp (disk_with None) (resolve (disk_with None) db_path)" "names_file db_path"
    using temp_ok_fresh by (simp_all add: temp_ok_def)
  note saved = json.load_saved [OF this ds, of ?clk "\<lambda>_. ?clk"]
  obtain st where "from_snapshot ?clk (\<lambda>_. ?clk) \<lparr>entries = [\<lparr>entry_key = ''persist'',
      entry_value = \<lparr>snapshot_bytes = ''value'', expiration_time_unix = None\<rparr>\<rparr>]\<rparr> = Some (Inr st)" "Store_get st 0 ''persist'' = Some ''value''"
    by (simp add: from_snapshot_def unix_now_millis_def StoreValue_try_from_def not_past_def hm_collect_def hm_new_def hm_insert_def
        hm_remove_def hm_get_def Store_get_def is_expired_def from_parts_def Let_def)
  with saved snap have load: "\<exists>st. load json_from_slice ?clk (\<lambda>_. ?clk) None (last ds) db_path = Some (Inr st) \<and> Store_get st 0 ''persist'' = Some ''value''"
    by auto
  have "shutdown_run (Some db_path) 1 [fst shutdown_persists_store_to_archive] =
      Some ((idle_server ?st 0)\<lparr>token := True, phase := Finished (Some (Inr ())), disk := last ds\<rparr>)"
    using t ds by (simp add: shutdown_eval idle_server_def)
  with load show ?thesis by (auto simp: shutdown_persists_store_to_archive_def)
qed

end
