(* ===== verification/Server_Spec.thy ===== *)
theory Server_Spec
  imports Server_Runs
begin

text \<open>
  What the server promises to its clients, as a machine without parser, reads, heap, sweeper and tasks: a
  map of values with deadlines, a clock, and for each client the bytes it has sent and the replies it
  got. A request is served in one step. The rest of the theory shows that the server, with everything
  interleaved, is simulated by this machine.
\<close>

section \<open>The specification\<close>

fun command_op :: "Command \<Rightarrow> Op option" where
  "command_op (SET k v) = Some (OpSet k v)"
| "command_op (GET k) = Some (OpGet k)"
| "command_op (DEL k) = Some (OpDel k)"
| "command_op (EXPIRE k n) = Some (OpExpire k n)"
| "command_op (TTL k) = Some (OpTtl k)"
| "command_op _ = None"

text \<open>
  The reply to a request, whether the client may use the data from then on, and the new map. No reply
  means that the connection is closed.
\<close>

definition spec_request :: "bytes option \<Rightarrow> bool \<Rightarrow> view \<Rightarrow> Instant \<Rightarrow> Frame \<Rightarrow> Frame option \<times> bool \<times> view" where
  "spec_request password granted m t f =
     (case Command_try_from f of
        Inl UnknownCommand \<Rightarrow> (Some (SimpleError ''Unknown Command''), granted, m)
      | Inl (WrongArity _ _ _) \<Rightarrow> (Some (SimpleError ''Wrong number of arguments''), granted, m)
      | Inl WrongArgumentType \<Rightarrow> (Some (SimpleError ''Wrong Argument Type''), granted, m)
      | Inl _ \<Rightarrow> (None, granted, m)
      | Inr PING \<Rightarrow> (Some (SimpleString ''PONG''), granted, m)
      | Inr (AUTH attempt) \<Rightarrow>
          (if password = None then (Some (SimpleError ''AUTH called without any password configured''), granted, m)
           else if password = Some attempt then (Some (SimpleString ''OK''), True, m)
           else (Some (SimpleError ''AUTH invalid password''), granted, m))
      | Inr cmd \<Rightarrow>
          (case command_op cmd of
             None \<Rightarrow> (None, granted, m)
           | Some op \<Rightarrow>
               if \<not> granted then (Some (SimpleError ''NOAUTH Authentication required''), granted, m)
               else (case spec_op m t op of
                 (r, m') \<Rightarrow> (if r = Panicked then None else Some (op_reply op r), granted, m'))))"

record Client =
  sent :: bytes
  served :: nat
  granted :: bool
  replies :: "Frame list"
  is_open :: bool

record World =
  contents :: view
  world_clock :: Instant
  clients :: "Client list"
  accepting :: bool

text \<open>The requests in the bytes sent so far, and whether something malformed follows them.\<close>

definition decode_stream :: "(u8 \<Rightarrow> bytes \<Rightarrow> nat option) \<Rightarrow> bytes \<Rightarrow> (Frame list \<times> bool) option" where
  "decode_stream mc bs = map_option (\<lambda>(p, fs, e). (fs, e \<noteq> None)) (parse_frames mc Parser_new bs)"

text \<open>
  A request is served at the time of the step; only the answer of \<open>DEL\<close> may be as of an earlier time. A
  reply may be lost when the connection fails. All requests received are served before more bytes are
  taken or the connection is closed. Bytes that cannot be decoded at all (the header of an array too
  large to allocate) close the connection.
\<close>

inductive client_step ::
  "(bytes \<Rightarrow> (Frame list \<times> bool) option) \<Rightarrow> bytes option \<Rightarrow> Instant \<Rightarrow> Client \<Rightarrow> view \<Rightarrow> Client \<Rightarrow> view \<Rightarrow> bool"
  for decode password now
where
  arrive: "is_open c \<Longrightarrow> decode (sent c) = Some (fs, False) \<Longrightarrow> served c = length fs \<Longrightarrow> bs \<noteq> [] \<Longrightarrow>
    decode (sent c @ bs) \<noteq> None \<Longrightarrow>
    client_step decode password now c m (c\<lparr>sent := sent c @ bs\<rparr>) m"
| choke: "is_open c \<Longrightarrow> decode (sent c) = Some (fs, False) \<Longrightarrow> served c = length fs \<Longrightarrow> bs \<noteq> [] \<Longrightarrow>
    decode (sent c @ bs) = None \<Longrightarrow>
    client_step decode password now c m (c\<lparr>sent := sent c @ bs, is_open := False\<rparr>) m"
| hang_up: "is_open c \<Longrightarrow> decode (sent c) = Some (fs, malformed) \<Longrightarrow> served c = length fs \<Longrightarrow>
    client_step decode password now c m (c\<lparr>is_open := False\<rparr>) m"
| serve: "is_open c \<Longrightarrow> decode (sent c) = Some (fs, malformed) \<Longrightarrow> served c < length fs \<Longrightarrow>
    t = now \<or> t \<le> now \<and> (\<exists>k. Command_try_from (fs ! served c) = Inr (DEL k)) \<Longrightarrow>
    spec_request password (granted c) m t (fs ! served c) = (reply, g, m') \<Longrightarrow>
    got = replies c @ (case reply of Some r \<Rightarrow> [r] | None \<Rightarrow> []) \<and> stays = (reply \<noteq> None) \<or> got = replies c \<and> \<not> stays \<Longrightarrow>
    client_step decode password now c m (c\<lparr>served := Suc (served c), granted := g, replies := got, is_open := stays\<rparr>) m'"

inductive spec_server :: "(bytes \<Rightarrow> (Frame list \<times> bool) option) \<Rightarrow> bytes option \<Rightarrow> World \<Rightarrow> World \<Rightarrow> bool"
  for decode password
where
  connect: "accepting w \<Longrightarrow> spec_server decode password w
    (w\<lparr>clients := clients w @ [\<lparr>sent = [], served = 0, granted = (password = None), replies = [], is_open = True\<rparr>]\<rparr>)"
| client: "i < length (clients w) \<Longrightarrow>
    client_step decode password (world_clock w) (clients w ! i) (contents w) c m \<Longrightarrow>
    spec_server decode password w (w\<lparr>contents := m, clients := (clients w)[i := c]\<rparr>)"
| leave: "i < length (clients w) \<Longrightarrow> \<not> is_open (clients w ! i) \<Longrightarrow>
    spec_server decode password w (w\<lparr>clients := take i (clients w) @ drop (Suc i) (clients w)\<rparr>)"
| stop: "spec_server decode password w (w\<lparr>accepting := False\<rparr>)"
| cut_off: "\<not> accepting w \<Longrightarrow> i < length (clients w) \<Longrightarrow>
    spec_server decode password w (w\<lparr>clients := (clients w)[i := (clients w ! i)\<lparr>is_open := False\<rparr>]\<rparr>)"
| pass_time: "world_clock w \<le> now \<Longrightarrow> spec_server decode password w (w\<lparr>world_clock := now\<rparr>)"

definition store_view :: "Store \<Rightarrow> view" where
  "store_view s k = map_option (\<lambda>v. (stored_value v, expiration_time v)) (hm_get k (hashmap s))"

definition spec_start :: "Store \<Rightarrow> Instant \<Rightarrow> World" where
  "spec_start s now = \<lparr>contents = store_view s, world_clock = now, clients = [], accepting = True\<rparr>"

section \<open>The store\<close>

text \<open>
  The map of the store holds what the abstract map holds; a key it lacks is missing or expired there.
\<close>

definition mirrors :: "Store \<Rightarrow> view \<Rightarrow> Instant \<Rightarrow> bool" where
  "mirrors s m now \<longleftrightarrow> hm_invar (hashmap s) \<and>
     (\<forall>k. hm_get k (hashmap s) = None \<longrightarrow> visible m now k = None) \<and>
     (\<forall>k v. hm_get k (hashmap s) = Some v \<longrightarrow> m k = Some (stored_value v, expiration_time v))"

lemma mirrors_cases:
  assumes "mirrors s m now"
  obtains "hm_get k (hashmap s) = None" "visible m now k = None"
  | v where "hm_get k (hashmap s) = Some v" "m k = Some (stored_value v, expiration_time v)"
  using assms unfolding mirrors_def by (cases "hm_get k (hashmap s)") auto

lemma visible_at: "m k = Some (stored_value v, expiration_time v) \<Longrightarrow>
    visible m t k = (if is_expired v t then None else Some (stored_value v, expiration_time v))"
  by (auto simp: visible_def is_expired_def split: option.split)

lemma visible_mono: "visible m now k = None \<Longrightarrow> now \<le> t \<Longrightarrow> visible m t k = None"
  by (cases "m k") (auto simp: visible_def split: if_splits intro: order_trans)

lemma mirrors_live: "mirrors s m now \<Longrightarrow> now \<le> t \<Longrightarrow> live s t = visible m t"
proof
  fix k assume a: "mirrors s m now" "now \<le> t"
  from a(1) show "live s t k = visible m t k"
    by (cases rule: mirrors_cases [where k = k]) (auto simp: live_def visible_at visible_mono [OF _ a(2)])
qed

lemma mirrors_later: "mirrors s m now \<Longrightarrow> now \<le> t \<Longrightarrow> mirrors s m t"
  unfolding mirrors_def using visible_mono by metis

lemma mirrors_start: "hm_invar (hashmap s) \<Longrightarrow> mirrors s (store_view s) now"
  by (auto simp: mirrors_def store_view_def visible_def split: option.splits)

lemma mirrors_upd:
  assumes "mirrors s m now" "hm_invar (hashmap s')"
    and "\<And>k'. hm_get k' (hashmap s') = (if k' = k then x else hm_get k' (hashmap s))"
    and "case x of None \<Rightarrow> visible (\<lambda>_. y) now k = None | Some v \<Rightarrow> y = Some (stored_value v, expiration_time v)"
  shows "mirrors s' (m(k := y)) now"
  using assms by (auto simp: mirrors_def visible_upd split: option.splits)

lemma mirrors_op:
  assumes "mirrors s m now"
  shows "fst (run_op s now op) = fst (spec_op m now op) \<and> mirrors (snd (run_op s now op)) (snd (spec_op m now op)) now"
proof -
  have inv: "hm_invar (hashmap s)" using assms by (simp add: mirrors_def)
  show ?thesis
  proof (cases op)
    case (OpSet k v)
    with inv show ?thesis
      by (auto simp: run_op_def spec_op_def Store_set_def intro!: mirrors_upd [OF assms])
  next
    case (OpDel k)
    with inv mirrors_live [OF assms, of now] show ?thesis
      by (auto simp: run_op_def spec_op_def del_live)
        (auto simp: Store_del_def intro!: mirrors_upd [OF assms, where x = None])
  next
    case (OpExpire k n)
    from assms show ?thesis
    proof (cases rule: mirrors_cases [where k = k])
      case 1
      with OpExpire assms show ?thesis by (simp add: run_op_def spec_op_def Store_expire_def)
    next
      case (2 v)
      show ?thesis
      proof (cases "is_expired v now")
        case True
        then have upd: "mirrors (s\<lparr>hashmap := hm_remove k (hashmap s)\<rparr>) (m(k := m k)) now"
          using 2 inv by (intro mirrors_upd [OF assms, where x = None]) (auto simp: visible_at)
        from upd [unfolded fun_upd_triv] True 2 OpExpire show ?thesis by (simp add: run_op_def spec_op_def Store_expire_def visible_at)
      next
        case False
        with 2 OpExpire inv show ?thesis
          by (auto simp: run_op_def spec_op_def Store_expire_def Let_def visible_at
              split: option.split intro!: mirrors_upd [OF assms])
      qed
    qed
  qed (use assms mirrors_live [OF assms, of now] in \<open>simp_all add: run_op_def spec_op_def get_live ttl_live\<close>)
qed

text \<open>An old reading of \<open>DEL\<close> answers as of that reading or as of now.\<close>

lemma mirrors_old_del:
  assumes "mirrors s m now" "old \<le> now"
  obtains t where "t \<le> now" "fst (run_op s old (OpDel k)) = fst (spec_op m t (OpDel k))"
    "mirrors (snd (run_op s old (OpDel k))) (snd (spec_op m t (OpDel k))) now"
proof -
  have same: "snd (run_op s old (OpDel k)) = snd (run_op s now (OpDel k))"
    "snd (spec_op m t (OpDel k)) = snd (spec_op m now (OpDel k))" for t
    using del_any_reading by (simp_all add: run_op_def spec_op_def)
  from assms(1) show ?thesis
  proof (cases rule: mirrors_cases [where k = k])
    case 1
    then have "fst (run_op s old (OpDel k)) = fst (spec_op m now (OpDel k))"
      by (simp add: run_op_def spec_op_def Store_del_def)
    with that [of now] mirrors_op [OF assms(1), of "OpDel k"] same show ?thesis by simp
  next
    case (2 v)
    then have "fst (run_op s old (OpDel k)) = fst (spec_op m old (OpDel k))"
      by (simp add: run_op_def spec_op_def Store_del_def visible_at)
    with that [of old] assms(2) mirrors_op [OF assms(1), of "OpDel k"] same(1) same(2) [of old] show ?thesis by simp
  qed
qed

lemma mirrors_sweeper:
  assumes "sweeper_step s s'" "sys_inv s" "mirrors (shared s) m (clock s)"
  shows "mirrors (shared s') m (clock s')"
  using assms
proof (induction rule: sweeper_step.induct)
  case (sweep_purge s now candidates)
  have le: "now \<le> clock s" using sweep_purge.hyps sweep_purge.prems(1) by (simp add: sys_inv_def pc_ok_def)
  have inv: "hm_invar (hashmap (shared s))" using sweep_purge.prems(2) by (simp add: mirrors_def)
  have "visible m (clock s) k = None" if "hm_get k (sweep_map now candidates (hashmap (shared s))) = None" for k
    using sweep_purge.prems(2) that
    by (cases rule: mirrors_cases [where k = k])
      (auto simp: sweep_map_get inv visible_at is_expired_mono [OF _ le] split: if_splits)
  with sweep_purge.prems(2) inv show ?case by (auto simp: mirrors_def sweep_map_get split: if_splits)
qed (auto simp: mirrors_def)

section \<open>Requests\<close>

definition answers :: "Exit + ProcessOutcome \<Rightarrow> Frame option \<Rightarrow> bool" where
  "answers out reply \<longleftrightarrow> (case reply of Some r \<Rightarrow> out = Inr (Respond r) | None \<Rightarrow> out = Inr Quit \<or> (\<exists>e. out = Inl e))"

lemma outcome_of_plain:
  assumes "outcome_of ct ex c s now f = (out, c', s')" "\<forall>a b. ct a b \<longleftrightarrow> a = b"
    and "\<forall>cmd. Command_try_from f = Inr cmd \<longrightarrow> \<not> is_authorized c \<or> command_op cmd = None"
  shows "\<exists>reply. spec_request (map_option ex (auth_password c)) (is_authorized c) m t f = (reply, is_authorized c', m) \<and>
    s' = s \<and> auth_password c' = auth_password c \<and> written c' = written c \<and> answers out reply"
proof (cases "Command_try_from f")
  case (Inl e)
  with assms(1) show ?thesis by (cases e) (auto simp: outcome_of_def spec_request_def answers_def)
next
  case (Inr cmd)
  with assms Command_try_from_not_NOOP [of f] show ?thesis
    by (cases cmd; cases "auth_password c")
      (auto simp: outcome_of_def spec_request_def answers_def process_command_def can_execute_def
        authenticate_connection_def is_authorized_def)
qed

lemma outcome_of_command_op:
  assumes "outcome_of ct ex c s now f = (out, c', s')" "Command_try_from f = Inr cmd" "command_op cmd = Some op" "is_authorized c"
    and "fst (run_op s now op) = fst (spec_op m t op)"
  shows "\<exists>reply. spec_request (map_option ex (auth_password c)) (is_authorized c) m t f = (reply, is_authorized c', snd (spec_op m t op)) \<and>
    s' = snd (run_op s now op) \<and> c' = c \<and> answers out reply"
proof -
  obtain r m' where sp: "spec_op m t op = (r, m')" by fastforce
  have "spec_request (map_option ex (auth_password c)) True m t f = (if r = Panicked then None else Some (op_reply op r), True, m')"
    using assms(2-4) sp by (cases cmd) (auto simp: spec_request_def)
  moreover have "s' = snd (run_op s now op) \<and> c' = c \<and> answers out (if r = Panicked then None else Some (op_reply op r))"
    using assms sp by (cases cmd)
      (auto simp: outcome_of_def process_command_def can_execute_def run_op_def answers_def split: option.splits)
  ultimately show ?thesis using assms(4) sp by simp
qed

lemma outcome_of_spec:
  assumes "outcome_of ct ex c s reading f = (out, c', s')" "mirrors s m now" "\<forall>a b. ct a b \<longleftrightarrow> a = b"
    and "reading = now \<or> reading \<le> now \<and> (\<exists>k. Command_try_from f = Inr (DEL k))"
  shows "\<exists>t reply m'. (t = now \<or> t \<le> now \<and> (\<exists>k. Command_try_from f = Inr (DEL k))) \<and>
    spec_request (map_option ex (auth_password c)) (is_authorized c) m t f = (reply, is_authorized c', m') \<and>
    mirrors s' m' now \<and> auth_password c' = auth_password c \<and> written c' = written c \<and> answers out reply"
proof (cases "\<forall>cmd. Command_try_from f = Inr cmd \<longrightarrow> \<not> is_authorized c \<or> command_op cmd = None")
  case True
  from outcome_of_plain [OF assms(1,3) True, of m now] assms(2) show ?thesis by blast
next
  case False
  then obtain cmd op where op: "Command_try_from f = Inr cmd" "is_authorized c" "command_op cmd = Some op" by blast
  have "\<exists>t. (t = now \<or> t \<le> now \<and> (\<exists>k. Command_try_from f = Inr (DEL k))) \<and>
      fst (run_op s reading op) = fst (spec_op m t op) \<and> mirrors (snd (run_op s reading op)) (snd (spec_op m t op)) now"
    using assms(4)
  proof
    assume "reading = now"
    with mirrors_op [OF assms(2)] show ?thesis by blast
  next
    assume r: "reading \<le> now \<and> (\<exists>k. Command_try_from f = Inr (DEL k))"
    then obtain k where k: "cmd = DEL k" using op(1) by auto
    with op have opk: "op = OpDel k" by simp
    obtain t where "t \<le> now" "fst (run_op s reading (OpDel k)) = fst (spec_op m t (OpDel k))"
      "mirrors (snd (run_op s reading (OpDel k))) (snd (spec_op m t (OpDel k))) now"
      by (rule mirrors_old_del [OF assms(2) conjunct1 [OF r]])
    with op(1) k show ?thesis unfolding opk by (intro exI [of _ t]) simp
  qed
  then obtain t where t: "t = now \<or> t \<le> now \<and> (\<exists>k. Command_try_from f = Inr (DEL k))"
    "fst (run_op s reading op) = fst (spec_op m t op)" "mirrors (snd (run_op s reading op)) (snd (spec_op m t op)) now"
    by blast
  from outcome_of_command_op [OF assms(1) op(1,3,2) t(2)] t(1,3) show ?thesis by blast
qed

text \<open>The step of the handler for one frame, with the reply written or lost.\<close>

lemma handle_frame_spec:
  assumes "handle_frame ct ex \<lparr>env_clock = (\<lambda>_. reading), env_others = (\<lambda>_ s. s), env_write = (\<lambda>_. io)\<rparr> x f = (y, exit)"
    and "mirrors (store x) m now" "\<forall>a b. ct a b \<longleftrightarrow> a = b"
    and "reading = now \<or> reading \<le> now \<and> (\<exists>k. Command_try_from f = Inr (DEL k))"
  shows "\<exists>t reply m' rs. (t = now \<or> t \<le> now \<and> (\<exists>k. Command_try_from f = Inr (DEL k))) \<and>
    spec_request (map_option ex (auth_password (conn x))) (is_authorized (conn x)) m t f = (reply, is_authorized (conn y), m') \<and>
    mirrors (store y) m' now \<and> auth_password (conn y) = auth_password (conn x) \<and> parser y = parser x \<and>
    written (conn y) = written (conn x) @ concat (map to_bytes rs) \<and>
    (rs = (case reply of Some r \<Rightarrow> [r] | None \<Rightarrow> []) \<and> (exit = None \<longleftrightarrow> reply \<noteq> None) \<or> rs = [] \<and> exit \<noteq> None)"
proof -
  obtain out c s where o: "outcome_of ct ex (conn x) (store x) reading f = (out, c, s)" by (metis prod_cases3)
  obtain t reply m' where sp: "t = now \<or> t \<le> now \<and> (\<exists>k. Command_try_from f = Inr (DEL k))"
    "spec_request (map_option ex (auth_password (conn x))) (is_authorized (conn x)) m t f = (reply, is_authorized c, m')"
    "mirrors s m' now" "auth_password c = auth_password (conn x)" "written c = written (conn x)" "answers out reply"
    using outcome_of_spec [OF o assms(2-4)] by blast
  let ?x = "x\<lparr>conn := c, store := s, count := Suc (count x)\<rparr>"
  have h: "answer io ?x out = (y, exit)" using assms(1) o by (simp add: handle_frame_def Let_def)
  have y: "store y = s" "parser y = parser x" "is_authorized (conn y) = is_authorized c" "auth_password (conn y) = auth_password c"
    using answer_keeps [OF h] by (auto simp: is_authorized_def)
  obtain rs where "written (conn y) = written (conn x) @ concat (map to_bytes rs)"
    "rs = (case reply of Some r \<Rightarrow> [r] | None \<Rightarrow> []) \<and> (exit = None \<longleftrightarrow> reply \<noteq> None) \<or> rs = [] \<and> exit \<noteq> None"
    using h sp(5,6) by (cases reply; cases io) (force simp: answers_def)+
  with sp y show ?thesis
    by (intro exI [of _ t] exI [of _ reply] exI [of _ m'] exI [of _ rs]) simp
qed

section \<open>The simulation\<close>

definition client_matches :: "(u8 \<Rightarrow> bytes \<Rightarrow> nat option) \<Rightarrow> 'sec option \<Rightarrow> 'sec Task \<Rightarrow> Client \<Rightarrow> bool" where
  "client_matches mc password t c \<longleftrightarrow>
     auth_password (conn (session t)) = password \<and> is_authorized (conn (session t)) = granted c \<and>
     written (conn (session t)) = concat (map to_bytes (replies c)) \<and> (ended t \<longleftrightarrow> \<not> is_open c) \<and>
     sent c = received t \<and>
     ((\<exists>fs e. parse_frames mc Parser_new (sent c) = Some (parser (session t), fs, e) \<and> served c \<le> length fs \<and>
         frames t = drop (served c) fs \<and> (halting t \<longleftrightarrow> e \<noteq> None)) \<or>
      decode_stream mc (sent c) = None \<and> ended t)"

lemma client_matches_openE:
  assumes "client_matches mc password t c" "\<not> ended t"
  obtains fs e where "auth_password (conn (session t)) = password" "is_authorized (conn (session t)) = granted c"
    "written (conn (session t)) = concat (map to_bytes (replies c))" "is_open c" "sent c = received t"
    "parse_frames mc Parser_new (sent c) = Some (parser (session t), fs, e)" "served c \<le> length fs"
    "frames t = drop (served c) fs" "halting t \<longleftrightarrow> e \<noteq> None"
    "decode_stream mc (sent c) = Some (fs, halting t)"
  using assms unfolding client_matches_def decode_stream_def by fastforce

lemma client_matches_facts:
  assumes "client_matches mc password t c"
  shows "written (conn (session t)) = concat (map to_bytes (replies c)) \<and>
    is_authorized (conn (session t)) = granted c \<and> (ended t \<longleftrightarrow> \<not> is_open c) \<and> sent c = received t \<and>
    ((\<exists>fs. decode_stream mc (received t) = Some (fs, halting t) \<and> frames t = drop (served c) fs) \<or>
     decode_stream mc (received t) = None \<and> ended t)"
  using assms by (auto simp: client_matches_def decode_stream_def)

lemma client_matches_spawn:
  "memchr_law mc \<Longrightarrow> client_matches mc password (spawn_connection password)
     \<lparr>sent = [], served = 0, granted = (password = None), replies = [], is_open = True\<rparr>"
  using stream.consume_Nil [of Parser_new] memchr_law_unique [of mc]
  by (simp add: client_matches_def spawn_connection_def session_start_def Connection_new_def is_authorized_def)

lemma client_matches_end:
  "client_matches mc password t c \<Longrightarrow> client_matches mc password (t\<lparr>ended := True\<rparr>) (c\<lparr>is_open := False\<rparr>)"
  unfolding client_matches_def by auto

lemma client_read:
  assumes "memchr_law mc" "client_matches mc password t c" "\<not> ended t" "frames t = []" "\<not> halting t" "bs \<noteq> []"
    and "parse_frames mc (parser (session t)) bs = Some (p, fs, e)"
  shows "client_step (decode_stream mc) pw now c m (c\<lparr>sent := sent c @ bs\<rparr>) m"
    and "client_matches mc password
      (t\<lparr>session := (session t)\<lparr>parser := p\<rparr>, received := received t @ bs, frames := fs, halting := (e \<noteq> None)\<rparr>)
      (c\<lparr>sent := sent c @ bs\<rparr>)"
proof -
  note mc = memchr_law_unique [OF assms(1)]
  from assms(2) obtain fs0 where
    keep: "auth_password (conn (session t)) = password" "is_authorized (conn (session t)) = granted c"
      "written (conn (session t)) = concat (map to_bytes (replies c))" "is_open c" "sent c = received t"
    and fs0: "parse_frames mc Parser_new (sent c) = Some (parser (session t), fs0, None)" "served c = length fs0"
      "decode_stream mc (sent c) = Some (fs0, False)"
    using assms(3-5) by (elim client_matches_openE) auto
  have all: "parse_frames mc Parser_new (sent c @ bs) = Some (p, fs0 @ fs, e)"
    using stream.consume_more [of Parser_new "sent c"] fs0(1) assms(7) by (simp add: mc)
  then have "decode_stream mc (sent c @ bs) \<noteq> None" by (simp add: decode_stream_def)
  with keep(4) fs0 assms(6) show "client_step (decode_stream mc) pw now c m (c\<lparr>sent := sent c @ bs\<rparr>) m"
    by (intro arrive)
  from keep assms(3) fs0(2) all show "client_matches mc password
      (t\<lparr>session := (session t)\<lparr>parser := p\<rparr>, received := received t @ bs, frames := fs, halting := (e \<noteq> None)\<rparr>)
      (c\<lparr>sent := sent c @ bs\<rparr>)"
    by (simp add: client_matches_def)
qed

lemma client_choke:
  assumes "memchr_law mc" "client_matches mc password t c" "\<not> ended t" "frames t = []" "\<not> halting t" "bs \<noteq> []"
    and "parse_frames mc (parser (session t)) bs = None"
  shows "client_step (decode_stream mc) pw now c m (c\<lparr>sent := sent c @ bs, is_open := False\<rparr>) m"
    and "client_matches mc password (t\<lparr>received := received t @ bs, ended := True\<rparr>)
      (c\<lparr>sent := sent c @ bs, is_open := False\<rparr>)"
proof -
  note mc = memchr_law_unique [OF assms(1)]
  from assms(2) obtain fs0 where
    keep: "auth_password (conn (session t)) = password" "is_authorized (conn (session t)) = granted c"
      "written (conn (session t)) = concat (map to_bytes (replies c))" "is_open c" "sent c = received t"
    and fs0: "parse_frames mc Parser_new (sent c) = Some (parser (session t), fs0, None)" "served c = length fs0"
      "decode_stream mc (sent c) = Some (fs0, False)"
    using assms(3-5) by (elim client_matches_openE) auto
  have none: "decode_stream mc (sent c @ bs) = None"
    using stream.consume_more [of Parser_new "sent c"] fs0(1) assms(7) by (simp add: mc decode_stream_def)
  with keep(4) fs0 assms(6)
  show "client_step (decode_stream mc) pw now c m (c\<lparr>sent := sent c @ bs, is_open := False\<rparr>) m"
    by (intro choke)
  from keep none show "client_matches mc password (t\<lparr>received := received t @ bs, ended := True\<rparr>)
      (c\<lparr>sent := sent c @ bs, is_open := False\<rparr>)"
    by (simp add: client_matches_def)
qed

lemma client_frame:
  assumes "client_matches mc password t c" "mirrors s m now" "\<forall>a b. ct a b \<longleftrightarrow> a = b" "\<not> ended t" "frames t = f # fs"
    and "reading = now \<or> reading \<le> now \<and> (\<exists>k. Command_try_from f = Inr (DEL k))"
    and "handle_frame ct ex \<lparr>env_clock = (\<lambda>_. reading), env_others = (\<lambda>_ s. s), env_write = (\<lambda>_. io)\<rparr>
      ((session t)\<lparr>store := s\<rparr>) f = (y, exit)"
  shows "\<exists>c' m'. client_step (decode_stream mc) (map_option ex password) now c m c' m' \<and>
    client_matches mc password (t\<lparr>session := y, frames := fs, ended := (exit \<noteq> None)\<rparr>) c' \<and> mirrors (store y) m' now"
proof -
  from assms(1) obtain all e where
    keep: "auth_password (conn (session t)) = password" "is_authorized (conn (session t)) = granted c"
      "written (conn (session t)) = concat (map to_bytes (replies c))" "is_open c" "sent c = received t"
    and all: "parse_frames mc Parser_new (sent c) = Some (parser (session t), all, e)" "frames t = drop (served c) all"
      "halting t \<longleftrightarrow> e \<noteq> None" "decode_stream mc (sent c) = Some (all, halting t)"
    using assms(4) by (elim client_matches_openE) auto
  have less: "served c < length all" using all(2) assms(5) by (metis drop_all list.distinct(1) not_le_imp_less)
  have "all ! served c # drop (Suc (served c)) all = f # fs"
    unfolding Cons_nth_drop_Suc [OF less] using all(2) assms(5) by simp
  with less have next_f: "served c < length all" "all ! served c = f" "drop (Suc (served c)) all = fs" by simp_all
  have sx: "conn ((session t)\<lparr>store := s\<rparr>) = conn (session t)" "parser ((session t)\<lparr>store := s\<rparr>) = parser (session t)"
    "store ((session t)\<lparr>store := s\<rparr>) = s" by simp_all
  have mir: "mirrors (store ((session t)\<lparr>store := s\<rparr>)) m now" unfolding sx by (rule assms(2))
  obtain t' reply m' rs where sp: "t' = now \<or> t' \<le> now \<and> (\<exists>k. Command_try_from f = Inr (DEL k))"
    "spec_request (map_option ex password) (granted c) m t' f = (reply, is_authorized (conn y), m')"
    "mirrors (store y) m' now" "auth_password (conn y) = password" "parser y = parser (session t)"
    "written (conn y) = concat (map to_bytes (replies c @ rs))"
    "rs = (case reply of Some r \<Rightarrow> [r] | None \<Rightarrow> []) \<and> (exit = None \<longleftrightarrow> reply \<noteq> None) \<or> rs = [] \<and> exit \<noteq> None"
    using handle_frame_spec [OF assms(7) mir assms(3,6)]
    unfolding sx keep(1-3) map_append concat_append by blast
  let ?c = "c\<lparr>served := Suc (served c), granted := is_authorized (conn y), replies := replies c @ rs, is_open := (exit = None)\<rparr>"
  have "client_step (decode_stream mc) (map_option ex password) now c m ?c m'"
    using keep(4) all(4) next_f sp(1,2,7) by (intro serve [where t = t']) auto
  moreover have "client_matches mc password (t\<lparr>session := y, frames := fs, ended := (exit \<noteq> None)\<rparr>) ?c"
    using all next_f sp(4-6) keep(5) by (simp add: client_matches_def)
  ultimately show ?thesis using sp(3) by blast
qed

lemma task_step_spec:
  assumes "task_step mc ct ex cancelled now t s t' s'" "memchr_law mc" "\<forall>a b. ct a b \<longleftrightarrow> a = b"
    and "client_matches mc password t c" "mirrors s m now"
  shows "\<exists>c' m'. client_step (decode_stream mc) (map_option ex password) now c m c' m' \<and>
    client_matches mc password t' c' \<and> mirrors s' m' now"
proof -
  have close: "client_step (decode_stream mc) (map_option ex password) now c m (c\<lparr>is_open := False\<rparr>) m"
    if "\<not> ended t" "frames t = []"
    using assms(4) that by (auto elim!: client_matches_openE intro: hang_up)
  from assms(1) show ?thesis
  proof (cases rule: task_step.cases)
    case (task_read bs p fs e)
    with client_read [OF assms(2,4)] assms(5) show ?thesis by blast
  next
    case (task_read_panic bs)
    with client_choke [OF assms(2,4)] assms(5) show ?thesis by blast
  next
    case (task_frame f fs reading io y exit)
    with client_frame [OF assms(4,5,3)] show ?thesis by simp
  qed (use close client_matches_end [OF assms(4)] assms(5) in blast)+
qed

definition server_matches :: "(u8 \<Rightarrow> bytes \<Rightarrow> nat option) \<Rightarrow> 'sec option \<Rightarrow> ('sec, 'json) Server \<Rightarrow> World \<Rightarrow> bool" where
  "server_matches mc password s w \<longleftrightarrow> sys_inv (sys s) \<and> mirrors (shared (sys s)) (contents w) (clock (sys s)) \<and>
     world_clock w = clock (sys s) \<and> (accepting w \<longleftrightarrow> phase s = Accepting) \<and>
     list_all2 (client_matches mc password) (tasks s) (clients w)"

lemma list_all2_single:
  assumes "list_all2 P [x] ys"
  obtains y where "ys = [y]" "P x y"
  using assms by (auto simp: list_all2_Cons1)

lemma list_all2_memberD:
  assumes "list_all2 P xs ys"
  shows "x \<in> set xs \<Longrightarrow> \<exists>y \<in> set ys. P x y" "y \<in> set ys \<Longrightarrow> \<exists>x \<in> set xs. P x y"
  using assms by (induction rule: list_all2_induct) auto

lemma list_all2_remove: "list_all2 P xs ys \<Longrightarrow> list_all2 P (take i xs @ drop (Suc i) xs) (take i ys @ drop (Suc i) ys)"
  by (intro list_all2_appendI list_all2_takeI list_all2_dropI)

lemma connection_spec:
  assumes "server_matches mc password s w" "memchr_law mc" "\<forall>a b. ct a b \<longleftrightarrow> a = b" "i < length (tasks s)"
    and "task_step mc ct ex (token s) (clock (sys s)) (tasks s ! i) (shared (sys s)) t st"
  shows "\<exists>w'. spec_server (decode_stream mc) (map_option ex password) w w' \<and>
    server_matches mc password (s\<lparr>sys := (sys s)\<lparr>shared := st\<rparr>, tasks := (tasks s)[i := t]\<rparr>) w'"
proof -
  have len: "length (tasks s) = length (clients w)" and m: "client_matches mc password (tasks s ! i) (clients w ! i)"
    "mirrors (shared (sys s)) (contents w) (clock (sys s))"
    using assms(1,4) by (auto simp: server_matches_def dest: list_all2_lengthD list_all2_nthD)
  obtain c m where c: "client_step (decode_stream mc) (map_option ex password) (clock (sys s)) (clients w ! i) (contents w) c m"
    "client_matches mc password t c" "mirrors st m (clock (sys s))"
    using task_step_spec [OF assms(5,2,3) m] by blast
  have "spec_server (decode_stream mc) (map_option ex password) w (w\<lparr>contents := m, clients := (clients w)[i := c]\<rparr>)"
    using assms(1,4) c(1) len by (intro client) (auto simp: server_matches_def)
  moreover have "server_matches mc password (s\<lparr>sys := (sys s)\<lparr>shared := st\<rparr>, tasks := (tasks s)[i := t]\<rparr>)
      (w\<lparr>contents := m, clients := (clients w)[i := c]\<rparr>)"
    using assms(1,4) c(2,3) task_step_sys_inv [of "sys s", OF _ assms(5)]
    by (auto simp: server_matches_def list_all2_update_cong)
  ultimately show ?thesis by blast
qed

lemma server_step_spec:
  assumes "server_matches mc password s w" "server_step mc ct ex tempfile_in to_vec password path s s'"
    and "memchr_law mc" "\<forall>a b. ct a b \<longleftrightarrow> a = b"
  shows "server_matches mc password s' w \<or>
    (\<exists>w'. spec_server (decode_stream mc) (map_option ex password) w w' \<and> server_matches mc password s' w')"
proof -
  have len: "length (tasks s) = length (clients w)" using assms(1) by (auto simp: server_matches_def dest: list_all2_lengthD)
  have nth: "client_matches mc password (tasks s ! i) (clients w ! i)" if "i < length (tasks s)" for i
    using assms(1) that by (auto simp: server_matches_def dest: list_all2_nthD)
  from assms(2) show ?thesis
  proof (cases rule: server_step.cases)
    case accept
    with assms(1) have "spec_server (decode_stream mc) (map_option ex password) w
        (w\<lparr>clients := clients w @ [\<lparr>sent = [], served = 0, granted = (password = None), replies = [], is_open = True\<rparr>]\<rparr>)"
      using connect [of w "decode_stream mc" "map_option ex password"] by (simp add: server_matches_def)
    with accept assms(1) client_matches_spawn [OF assms(3)] show ?thesis
      by (intro disjI2 exI conjI) (auto simp: server_matches_def intro!: list_all2_appendI)
  next
    case (connection i t st)
    with connection_spec [OF assms(1,3,4)] show ?thesis by simp
  next
    case (join i)
    have "spec_server (decode_stream mc) (map_option ex password) w (w\<lparr>clients := take i (clients w) @ drop (Suc i) (clients w)\<rparr>)"
      using join len nth [OF join(2)] by (intro leave) (auto simp: client_matches_def)
    with assms(1) join show ?thesis by (intro disjI2 exI conjI) (auto simp: server_matches_def list_all2_remove)
  next
    case stop_accepting
    have "spec_server (decode_stream mc) (map_option ex password) w (w\<lparr>accepting := False\<rparr>)" by (rule stop)
    with assms(1) stop_accepting show ?thesis by (intro disjI2 exI conjI) (auto simp: server_matches_def)
  next
    case (abort_task i)
    have "spec_server (decode_stream mc) (map_option ex password) w
        (w\<lparr>clients := (clients w)[i := (clients w ! i)\<lparr>is_open := False\<rparr>]\<rparr>)"
      using abort_task assms(1) len by (intro cut_off) (auto simp: server_matches_def)
    with nth [OF abort_task(3)] show ?thesis
      using assms(1) abort_task by (intro disjI2 exI conjI) (auto simp: server_matches_def list_all2_update_cong client_matches_end)
  next
    case (background y)
    with assms(1) mirrors_sweeper [OF background(2)] sweeper_inv [OF background(2)] sweeper_clock [OF background(2)]
    show ?thesis by (intro disjI1) (auto simp: server_matches_def)
  next
    case (time now)
    have "spec_server (decode_stream mc) (map_option ex password) w (w\<lparr>world_clock := now\<rparr>)"
      using assms(1) time by (intro pass_time) (auto simp: server_matches_def)
    with assms(1) time show ?thesis
      by (intro disjI2 exI conjI) (auto simp: server_matches_def intro: tick_inv mirrors_later)
  qed (use assms(1) in \<open>auto simp: server_matches_def\<close>)
qed

interpretation server: forward_simulation "server_step mc ct ex tempfile_in to_vec password path"
  "spec_server (decode_stream mc) (map_option ex password)"
  "\<lambda>s w. memchr_law mc \<and> (\<forall>a b. ct a b \<longleftrightarrow> a = b) \<and> server_matches mc password s w"
  for mc ct ex tempfile_in to_vec password path
proof
  fix s s' :: "('a, 'b) Server" and w
  assume a: "memchr_law mc \<and> (\<forall>a b. ct a b \<longleftrightarrow> a = b) \<and> server_matches mc password s w"
    and step: "server_step mc ct ex tempfile_in to_vec password path s s'"
  from a have laws: "memchr_law mc" "\<forall>a b. ct a b \<longleftrightarrow> a = b" "server_matches mc password s w" by blast+
  from server_step_spec [OF laws(3) step laws(1,2)] laws(1,2) show "(memchr_law mc \<and> (\<forall>a b. ct a b \<longleftrightarrow> a = b) \<and> server_matches mc password s' w) \<or>
      (\<exists>w'. spec_server (decode_stream mc) (map_option ex password) w w' \<and>
        memchr_law mc \<and> (\<forall>a b. ct a b \<longleftrightarrow> a = b) \<and> server_matches mc password s' w')"
    by blast
qed

lemma server_matches_start:
  "server_init s \<Longrightarrow> server_matches mc password s (spec_start (shared (sys s)) (clock (sys s)))"
  using sw.inv_init [of "sys s"]
  by (auto simp: server_init_def server_matches_def spec_start_def sys_init_def intro: mirrors_start)

text \<open>
  C9. The whole server refines its specification: whatever the connections, the sweeper, the clock and the
  shutdown do in an execution of the server, the machine that serves each request in one step on a map
  with deadlines has an execution in which every client has sent exactly the bytes its connection
  received, was answered the same bytes, is authorized and connected alike, and which ends with the
  same visible data. The requests a connection still has to serve are those decoded from the bytes
  received that the machine has not served yet; bytes without a decoding have ended the connection.
\<close>

theorem server_refines_spec:
  assumes "memchr_law mc" and "\<forall>a b. ct_eq a b \<longleftrightarrow> a = b" and "server_init s0"
    and "(server_step mc ct_eq expose tempfile_in to_vec password path)\<^sup>*\<^sup>* s0 s"
  shows "\<exists>w. (spec_server (decode_stream mc) (map_option expose password))\<^sup>*\<^sup>* (spec_start (shared (sys s0)) (clock (sys s0))) w \<and>
    world_clock w = clock (sys s) \<and> (accepting w \<longleftrightarrow> phase s = Accepting) \<and>
    (\<forall>t \<ge> clock (sys s). live (shared (sys s)) t = visible (contents w) t) \<and>
    list_all2 (\<lambda>t c. written (conn (session t)) = concat (map to_bytes (replies c)) \<and>
      is_authorized (conn (session t)) = granted c \<and> (ended t \<longleftrightarrow> \<not> is_open c) \<and> sent c = received t \<and>
      ((\<exists>fs. decode_stream mc (received t) = Some (fs, halting t) \<and> frames t = drop (served c) fs) \<or>
       decode_stream mc (received t) = None \<and> ended t)) (tasks s) (clients w)"
proof -
  obtain w where w: "(spec_server (decode_stream mc) (map_option expose password))\<^sup>*\<^sup>* (spec_start (shared (sys s0)) (clock (sys s0))) w"
    "server_matches mc password s w"
    using server.simulate_steps [OF assms(4) conjI [OF assms(1) conjI [OF assms(2) server_matches_start [OF assms(3)]]]]
    by (elim exE conjE)
  have "list_all2 (\<lambda>t c. written (conn (session t)) = concat (map to_bytes (replies c)) \<and>
      is_authorized (conn (session t)) = granted c \<and> (ended t \<longleftrightarrow> \<not> is_open c) \<and> sent c = received t \<and>
      ((\<exists>fs. decode_stream mc (received t) = Some (fs, halting t) \<and> frames t = drop (served c) fs) \<or>
       decode_stream mc (received t) = None \<and> ended t)) (tasks s) (clients w)"
  proof (rule list_all2_mono [where P = "client_matches mc password"])
    show "list_all2 (client_matches mc password) (tasks s) (clients w)" using w(2) by (simp add: server_matches_def)
  qed (rule client_matches_facts)
  moreover have "world_clock w = clock (sys s)" "accepting w \<longleftrightarrow> phase s = Accepting"
    and "mirrors (shared (sys s)) (contents w) (clock (sys s))" using w(2) by (simp_all add: server_matches_def)
  ultimately show ?thesis using w(1) mirrors_live by blast
qed

theorem server_refines_spec_witness:
  "\<exists>w c. (spec_server (decode_stream index_of) None)\<^sup>*\<^sup>* (spec_start Store_new 0) w \<and> clients w = [c] \<and> is_open c \<and>
     sent c = to_bytes (request_frame ''PING'' []) \<and> concat (map to_bytes (replies c)) = ''+PONG'' @ CRLF"
proof -
  let ?f = "request_frame ''PING'' []"
  have "parse_frames index_of Parser_new (to_bytes ?f) = Some (Parser_new, [?f], None)"
    using parse_frames_encoded [of "[?f]" index_of] by (simp add: request_frame_def size_eval)
  then obtain s where s: "perform_all index_of (=) id fresh_temp json_to_vec None None
      [Accept, Receive 0 (to_bytes ?f), Serve 0 0 None] (idle_server Store_new 0) = Some s"
    "\<exists>t. tasks s = [t] \<and> written (conn (session t)) = ''+PONG'' @ CRLF \<and> \<not> ended t \<and> received t = to_bytes ?f"
    by (auto simp: idle_server_def with_task_def perform_receive_def perform_serve_def spawn_connection_def session_start_def
        Connection_new_def handle_frame_def outcome_of_def process_command_def can_execute_def keyword_distinct)
  have "server_init (idle_server Store_new 0)" by (simp add: server_init_def idle_server_def sys_init_def)
  note sim = server_refines_spec [OF index_of_memchr _ this perform_all_steps [OF s(1)], simplified]
  from s(2) obtain t where t: "tasks s = [t]" "written (conn (session t)) = ''+PONG'' @ CRLF" "\<not> ended t"
    "received t = to_bytes ?f" by blast
  from sim show ?thesis
    unfolding t(1)
  proof (elim exE conjE list_all2_single)
    fix w c assume "(spec_server (decode_stream index_of) None)\<^sup>*\<^sup>* (spec_start (shared (sys (idle_server Store_new 0)))
        (clock (sys (idle_server Store_new 0)))) w"
      and "clients w = [c]" "written (conn (session t)) = concat (map to_bytes (replies c))" "ended t \<longleftrightarrow> \<not> is_open c"
      and "sent c = received t"
    with t(2-4) show ?thesis by (intro exI [of _ w] exI [of _ c]) (simp add: idle_server_def)
  qed
qed

end
