(* ===== verification/Server_Integrity.thy ===== *)
theory Server_Integrity
  imports Server_Spec
begin

text \<open>
  Contracts between requests and replies, proved once on the specification of the server and carried over
  to the server by the simulation. A contract says which requests are allowed, what then holds of the
  data, and which replies a request may get. If every request that any client sends is allowed, then
  in every interleaving each connection has answered the requests decoded from the bytes it
  received, in order, with replies that keep the contract.
\<close>

section \<open>Contracts\<close>

definition requests_in :: "(u8 \<Rightarrow> bytes \<Rightarrow> nat option) \<Rightarrow> (Frame \<Rightarrow> bool) \<Rightarrow> bytes \<Rightarrow> bool" where
  "requests_in mc allowed bs \<longleftrightarrow>
     (case decode_stream mc bs of None \<Rightarrow> True | Some (fs, malformed) \<Rightarrow> list_all allowed fs)"

text \<open>
  The replies of a client answer the first of the requests it sent. A client whose last bytes have no
  decoding was answered for the bytes before.
\<close>

definition replied :: "(u8 \<Rightarrow> bytes \<Rightarrow> nat option) \<Rightarrow> (Frame \<Rightarrow> Frame \<Rightarrow> bool) \<Rightarrow> Client \<Rightarrow> bool" where
  "replied mc ok c \<longleftrightarrow>
     (\<exists>pre rest fs malformed. sent c = pre @ rest \<and> decode_stream mc pre = Some (fs, malformed) \<and>
        (is_open c \<or> decode_stream mc (sent c) \<noteq> None \<longrightarrow> rest = []) \<and>
        length (replies c) \<le> served c \<and> served c \<le> length fs \<and> (is_open c \<longrightarrow> served c = length (replies c)) \<and>
        list_all2 ok (take (length (replies c)) fs) (replies c))"

lemma replied_parts:
  assumes "sent c = pre @ rest" "decode_stream mc pre = Some (fs, malformed)"
    and "is_open c \<or> decode_stream mc (sent c) \<noteq> None \<longrightarrow> rest = []" "length (replies c) \<le> served c" "served c \<le> length fs"
    and "is_open c \<longrightarrow> served c = length (replies c)" "list_all2 ok (take (length (replies c)) fs) (replies c)"
  shows "replied mc ok c"
  unfolding replied_def
  by (intro exI [of _ pre] exI [of _ rest] exI [of _ fs] exI [of _ malformed]) (use assms in simp)

lemma repliedE:
  assumes "replied mc ok c"
  obtains pre rest fs malformed where "sent c = pre @ rest" "decode_stream mc pre = Some (fs, malformed)"
    "is_open c \<or> decode_stream mc (sent c) \<noteq> None \<longrightarrow> rest = []" "length (replies c) \<le> served c" "served c \<le> length fs"
    "is_open c \<longrightarrow> served c = length (replies c)" "list_all2 ok (take (length (replies c)) fs) (replies c)"
  using assms unfolding replied_def by (elim exE conjE)

lemmas repliedI = replied_parts [where rest = "[]", simplified, OF refl]

lemma replied_openD:
  assumes "replied mc ok c" "is_open c" "decode_stream mc (sent c) = Some (fs, malformed)"
  shows "served c = length (replies c)" "served c \<le> length fs" "list_all2 ok (take (length (replies c)) fs) (replies c)"
  using assms by (auto elim: repliedE)

lemma replied_close: "replied mc ok c \<Longrightarrow> replied mc ok (c\<lparr>is_open := False\<rparr>)"
  by (elim repliedE) (rule replied_parts, auto simp del: not_None_eq)

lemma decode_stream_Nil: "decode_stream index_of [] = Some ([], False)"
  using stream.consume_Nil [of Parser_new] by (simp add: decode_stream_def)

lemma decode_stream_append:
  assumes "decode_stream index_of a = Some (fs, False)" "decode_stream index_of (a @ b) = Some (gs, m)"
  shows "\<exists>hs. gs = fs @ hs"
proof -
  from assms(1) obtain p where "parse_frames index_of Parser_new a = Some (p, fs, None)"
    by (auto simp: decode_stream_def)
  from stream.consume_more [OF this, of b] assms(2) show ?thesis by (auto simp: decode_stream_def)
qed

lemma spec_request_granted: "spec_request password g m t f = (reply, g', m') \<Longrightarrow> g \<Longrightarrow> g'"
  by (auto simp: spec_request_def split: sum.splits Error.splits Command.splits option.splits prod.splits if_splits)

locale reply_contract =
  fixes password :: "bytes option" and allowed :: "Frame \<Rightarrow> bool" and good :: "view \<Rightarrow> bool"
    and ok :: "Frame \<Rightarrow> Frame \<Rightarrow> bool"
  assumes request: "spec_request password g m t f = (reply, g', m') \<Longrightarrow> (password = None \<Longrightarrow> g) \<Longrightarrow>
    allowed f \<Longrightarrow> good m \<Longrightarrow> good m' \<and> (\<forall>r. reply = Some r \<longrightarrow> ok f r)"
begin

definition client_ok :: "Client \<Rightarrow> bool" where
  "client_ok c \<longleftrightarrow> (password = None \<longrightarrow> granted c) \<and> replied index_of ok c"

definition world_ok :: "World \<Rightarrow> bool" where
  "world_ok w \<longleftrightarrow> good (contents w) \<and> (\<forall>c \<in> set (clients w). client_ok c)"

lemma serve_ok:
  assumes "client_ok c" "good m" "list_all allowed fs" "is_open c" "decode_stream index_of (sent c) = Some (fs, malformed)"
    and "served c < length fs" "spec_request password (granted c) m t (fs ! served c) = (reply, g, m')"
    and "got = replies c @ (case reply of Some r \<Rightarrow> [r] | None \<Rightarrow> []) \<and> stays = (reply \<noteq> None) \<or> got = replies c \<and> \<not> stays"
  shows "client_ok (c\<lparr>served := Suc (served c), granted := g, replies := got, is_open := stays\<rparr>) \<and> good m'"
proof -
  have c: "password = None \<Longrightarrow> granted c" "replied index_of ok c"
    using assms(1) by (unfold client_ok_def) blast+
  note r = replied_openD [OF c(2) assms(4,5)]
  have "allowed (fs ! served c)" using assms(3,6) by (simp add: list_all_length)
  then have req: "good m' \<and> (\<forall>r. reply = Some r \<longrightarrow> ok (fs ! served c) r)"
    using request [OF assms(7) c(1) _ assms(2)] by blast
  have "list_all2 ok (take (length got) fs) got"
    using assms(6,8) r req by (auto simp: take_Suc_conv_app_nth list_all2_appendI split: option.splits)
  then have "replied index_of ok (c\<lparr>served := Suc (served c), granted := g, replies := got, is_open := stays\<rparr>)"
    using assms(5,6,8) r(1) by (intro repliedI [where fs = fs and malformed = malformed]) (auto split: option.splits)
  with c(1) spec_request_granted [OF assms(7)] req show ?thesis by (simp add: client_ok_def)
qed

lemma client_ok_step:
  assumes "client_step (decode_stream index_of) password now c m c' m'" "client_ok c" "good m"
    and "requests_in index_of allowed (sent c')"
  shows "client_ok c' \<and> good m'"
  using assms(1)
proof (cases rule: client_step.cases)
  case (arrive fs bs)
  then obtain gs b where gs: "decode_stream index_of (sent c @ bs) = Some (gs, b)" by auto
  with decode_stream_append arrive(4) obtain hs where hs: "gs = fs @ hs" by blast
  have "replied index_of ok c" using assms(2) by (simp add: client_ok_def)
  note r = replied_openD [OF this arrive(3,4)]
  have "replied index_of ok c'"
    using gs hs r arrive by (intro repliedI [where fs = gs and malformed = b]) simp_all
  with assms(2,3) arrive(1,2) show ?thesis by (simp add: client_ok_def)
next
  case (choke fs bs)
  have "replied index_of ok c" using assms(2) by (simp add: client_ok_def)
  note r = replied_openD [OF this choke(3,4)]
  have "replied index_of ok c'"
    by (rule replied_parts [where pre = "sent c" and rest = bs and fs = fs and malformed = False]) (use choke r in simp_all)
  with assms(2,3) choke(1,2) show ?thesis by (simp add: client_ok_def)
next
  case (hang_up fs malformed)
  with assms(2,3) show ?thesis by (simp add: client_ok_def replied_close)
next
  case (serve fs malformed t reply g got stays)
  have "list_all allowed fs" using assms(4) serve(1,3) by (simp add: requests_in_def)
  with serve_ok [OF assms(2,3) _ serve(2,3,4,6,7)] serve(1) show ?thesis by simp
qed

lemma world_ok_step:
  assumes "spec_server (decode_stream index_of) password w w'" "world_ok w"
    and "\<forall>c \<in> set (clients w'). requests_in index_of allowed (sent c)"
  shows "world_ok w'"
  using assms(1)
proof (cases rule: spec_server.cases)
  case connect
  have "replied index_of ok \<lparr>sent = [], served = 0, granted = (password = None), replies = [], is_open = True\<rparr>"
    by (rule repliedI [where fs = "[]" and malformed = False]) (simp_all add: decode_stream_Nil)
  with connect assms(2) show ?thesis by (auto simp: world_ok_def client_ok_def)
next
  case (client i c m)
  have "c \<in> set (clients w')" using client(1,2) by (simp add: set_update_memI)
  with client_ok_step [OF client(3)] client(2) assms(2,3) have "client_ok c \<and> good m"
    by (auto simp: world_ok_def)
  with assms(2) client(1) show ?thesis by (auto simp: world_ok_def dest!: set_update_subset_insert [THEN subsetD])
next
  case (leave i)
  with assms(2) show ?thesis by (auto simp: world_ok_def dest: in_set_takeD in_set_dropD)
next
  case (cut_off i)
  then have "client_ok ((clients w ! i)\<lparr>is_open := False\<rparr>)"
    using assms(2) by (auto simp: world_ok_def client_ok_def replied_close)
  with assms(2) cut_off show ?thesis by (auto simp: world_ok_def dest!: set_update_subset_insert [THEN subsetD])
qed (use assms(2) in \<open>auto simp: world_ok_def\<close>)

text \<open>The contract on executions of the server in which all requests received are allowed.\<close>

lemma server_world_ok:
  assumes "\<forall>a b. ct a b \<longleftrightarrow> a = b" "server_init s0" "good (store_view (shared (sys s0)))" "map_option ex pw = password"
    and "(\<lambda>s s'. server_step index_of ct ex tempfile_in to_vec pw path s s' \<and>
      (\<forall>t \<in> set (tasks s'). requests_in index_of allowed (received t)))\<^sup>*\<^sup>* s0 s"
  shows "\<exists>w. server_matches index_of pw s w \<and> world_ok w"
  using assms(5)
proof (induction rule: rtranclp_induct)
  case base
  have "world_ok (spec_start (shared (sys s0)) (clock (sys s0)))"
    using assms(3) by (simp add: world_ok_def spec_start_def)
  with server_matches_start [OF assms(2)] show ?case by blast
next
  case (step s s')
  then obtain w where w: "server_matches index_of pw s w" "world_ok w" by blast
  have "server_matches index_of pw s' w \<or>
      (\<exists>w'. spec_server (decode_stream index_of) password w w' \<and> server_matches index_of pw s' w')"
    using server_step_spec [OF w(1) _ index_of_memchr assms(1), where ex = ex] step.hyps(2) assms(4) by blast
  then show ?case
  proof (elim disjE exE conjE)
    fix w' assume w': "spec_server (decode_stream index_of) password w w'" "server_matches index_of pw s' w'"
    have "\<forall>c \<in> set (clients w'). requests_in index_of allowed (sent c)"
    proof
      fix c assume "c \<in> set (clients w')"
      then obtain t where "t \<in> set (tasks s')" "client_matches index_of pw t c"
        using w'(2) by (auto simp: server_matches_def dest: list_all2_memberD(2))
      with step.hyps(2) show "requests_in index_of allowed (sent c)" by (auto simp: client_matches_def)
    qed
    with world_ok_step [OF w'(1) w(2)] w'(2) show ?case by blast
  qed (use w in blast)
qed

lemma server_replies_ok:
  assumes "server_matches index_of pw s w" "world_ok w" "t \<in> set (tasks s)"
  shows "\<exists>pre rest fs malformed rs. received t = pre @ rest \<and> decode_stream index_of pre = Some (fs, malformed) \<and>
    (\<not> ended t \<or> decode_stream index_of (received t) \<noteq> None \<longrightarrow> rest = []) \<and>
    written (conn (session t)) = concat (map to_bytes rs) \<and> length rs \<le> length fs \<and>
    (\<not> ended t \<longrightarrow> frames t = drop (length rs) fs) \<and> list_all2 ok (take (length rs) fs) rs"
proof -
  obtain c where c: "c \<in> set (clients w)" "client_matches index_of pw t c"
    using assms(1,3) by (auto simp: server_matches_def dest: list_all2_memberD(1))
  note facts = client_matches_facts [OF c(2)]
  have "replied index_of ok c" using assms(2) c(1) by (simp add: world_ok_def client_ok_def)
  then obtain pre rest fs malformed where r: "sent c = pre @ rest" "decode_stream index_of pre = Some (fs, malformed)"
    "is_open c \<or> decode_stream index_of (sent c) \<noteq> None \<longrightarrow> rest = []"
    "length (replies c) \<le> served c" "served c \<le> length fs" "is_open c \<longrightarrow> served c = length (replies c)"
    "list_all2 ok (take (length (replies c)) fs) (replies c)"
    by (rule repliedE)
  have "frames t = drop (length (replies c)) fs" if "\<not> ended t"
  proof -
    have "is_open c" using that facts by simp
    with r facts have "decode_stream index_of (received t) = Some (fs, malformed)" "served c = length (replies c)" by auto
    with facts that show ?thesis by auto
  qed
  with facts r show ?thesis
    by (intro exI [of _ pre] exI [of _ rest] exI [of _ fs] exI [of _ malformed] exI [of _ "replies c"]) (simp del: not_None_eq)
qed

end

section \<open>Integrity of values\<close>

text \<open>
  A predicate on keys and values: requests that write only such values, data that holds only such
  values, and the replies that read only such values, each of the kind that belongs to its request.
\<close>

definition writes_only :: "(bytes \<Rightarrow> bytes \<Rightarrow> bool) \<Rightarrow> Frame \<Rightarrow> bool" where
  "writes_only V f \<longleftrightarrow> (case Command_try_from f of Inr (SET k v) \<Rightarrow> V k v | _ \<Rightarrow> True)"

definition holds_only :: "(bytes \<Rightarrow> bytes \<Rightarrow> bool) \<Rightarrow> view \<Rightarrow> bool" where
  "holds_only V m \<longleftrightarrow> (\<forall>k v e. m k = Some (v, e) \<longrightarrow> V k v)"

definition reads_only :: "bool \<Rightarrow> (bytes \<Rightarrow> bytes \<Rightarrow> bool) \<Rightarrow> Frame \<Rightarrow> Frame \<Rightarrow> bool" where
  "reads_only secured V f r \<longleftrightarrow> reply_to secured f r \<and>
     (\<forall>k v. Command_try_from f = Inr (GET k) \<and> r = Bulk (Some v) \<longrightarrow> V k v)"

lemma visible_holds: "holds_only V m \<Longrightarrow> visible m t k = Some (v, e) \<Longrightarrow> V k v"
  by (auto simp: holds_only_def visible_def split: option.splits if_splits)

lemma spec_op_holds:
  assumes "spec_op m t op = (r, m')" "holds_only V m" "\<And>k v. op = OpSet k v \<Longrightarrow> V k v"
  shows "holds_only V m'"
  using assms visible_holds [OF assms(2)]
  by (cases op) (fastforce simp: spec_op_def holds_only_def split: option.splits if_splits prod.splits)+

lemma spec_request_integrity:
  assumes "spec_request password g m t f = (reply, g', m')" "password = None \<Longrightarrow> g" "writes_only V f" "holds_only V m"
  shows "holds_only V m' \<and> (\<forall>r. reply = Some r \<longrightarrow> reads_only (password \<noteq> None) V f r)"
proof (cases "Command_try_from f")
  case (Inl e)
  with assms show ?thesis by (cases e) (auto simp: spec_request_def reads_only_def reply_to_def)
next
  case (Inr cmd)
  show ?thesis
  proof (cases "command_op cmd")
    case None
    with assms Inr show ?thesis
      by (cases cmd) (auto simp: spec_request_def reads_only_def reply_to_def split: if_splits)
  next
    case (Some op)
    obtain r m1 where sp: "spec_op m t op = (r, m1)" by fastforce
    have "holds_only V m1"
      using Some Inr assms(3) by (intro spec_op_holds [OF sp assms(4)]) (cases cmd; auto simp: writes_only_def)
    moreover have "reads_only (password \<noteq> None) V f (op_reply op r)" if "r \<noteq> Panicked"
      using sp that Inr Some visible_holds [OF assms(4)]
      by (cases cmd) (auto simp: spec_op_def reads_only_def reply_to_def split: option.splits if_splits)
    moreover have "reads_only (password \<noteq> None) V f (SimpleError ''NOAUTH Authentication required'')" if "\<not> g"
      using that assms(2) Inr Some by (cases cmd) (auto simp: reads_only_def reply_to_def denied_def)
    ultimately show ?thesis
      using assms(1,4) Inr Some sp by (cases cmd) (auto simp: spec_request_def split: if_splits)
  qed
qed

interpretation integrity: reply_contract password "writes_only V" "holds_only V" "reads_only (password \<noteq> None) V"
  for password V
  by unfold_locales (rule spec_request_integrity)

text \<open>
  C38. Integrity of the answers under concurrency: take any property of pairs of key and value that the
  initial data has and that every \<open>SET\<close> request decoded from the bytes of any connection has. Then in
  every execution, with all connections, the sweeper, the clock and the shutdown interleaved, the store
  holds only values with the property, and every connection has written exactly one reply for each
  request it has handled, in the order of the requests decoded from the bytes it received, each
  reply of the kind that belongs to its request, and every value in a reply to \<open>GET\<close> has the property
  for the key asked for, so no value comes from nowhere or from another key. An ended connection may
  have left the last of its requests unanswered, and bytes without a decoding are not answered.
\<close>

theorem replies_keep_integrity:
  assumes "memchr_law mc" and "\<forall>a b. ct_eq a b \<longleftrightarrow> a = b" and "server_init s0"
    and "holds_only V (store_view (shared (sys s0)))"
    and "(\<lambda>s s'. server_step mc ct_eq expose tempfile_in to_vec password path s s' \<and>
      (\<forall>t \<in> set (tasks s'). requests_in mc (writes_only V) (received t)))\<^sup>*\<^sup>* s0 s"
  shows "holds_only V (store_view (shared (sys s))) \<and>
    (\<forall>t \<in> set (tasks s). \<exists>pre rest fs malformed rs.
      received t = pre @ rest \<and> decode_stream mc pre = Some (fs, malformed) \<and>
      (\<not> ended t \<or> decode_stream mc (received t) \<noteq> None \<longrightarrow> rest = []) \<and>
      written (conn (session t)) = concat (map to_bytes rs) \<and> length rs \<le> length fs \<and>
      (\<not> ended t \<longrightarrow> frames t = drop (length rs) fs) \<and>
      list_all2 (reads_only (password \<noteq> None) V) (take (length rs) fs) rs)"
proof -
  note mc = memchr_law_unique [OF assms(1)]
  have pw: "map_option expose password = None \<longleftrightarrow> password = None" by simp
  obtain w where w: "server_matches index_of password s w" "integrity.world_ok (map_option expose password) V w"
    using integrity.server_world_ok [OF assms(2-4) refl assms(5) [unfolded mc]] by blast
  have "holds_only V (contents w)" using w(2) unfolding integrity.world_ok_def by blast
  moreover have "mirrors (shared (sys s)) (contents w) (clock (sys s))" using w(1) by (simp add: server_matches_def)
  ultimately have "holds_only V (store_view (shared (sys s)))"
    by (auto simp: holds_only_def store_view_def mirrors_def)
  with integrity.server_replies_ok [OF w] show ?thesis unfolding mc pw by blast
qed

theorem replies_keep_integrity_witness:
  "\<exists>(s :: (bytes, string) Server) t rs. tasks s = [t] \<and> received t = to_bytes (request_frame ''GET'' [''k'']) \<and>
     written (conn (session t)) = concat (map to_bytes rs) \<and> length rs = 1 \<and>
     list_all2 (reads_only False (\<lambda>k v. v = ''v'')) [request_frame ''GET'' [''k'']] rs"
proof -
  let ?f = "request_frame ''GET'' [''k'']" and ?st = "snd (Store_set Store_new ''k'' ''v'')"
  let ?V = "\<lambda>k v :: bytes. v = ''v''" and ?P = "perform index_of (=) id fresh_temp json_to_vec None None"
  let ?R = "\<lambda>s s'. server_step index_of (=) id fresh_temp json_to_vec None None s s' \<and>
      (\<forall>t \<in> set (tasks s'). requests_in index_of (writes_only ?V) (received t))"
  have parse: "parse_frames index_of Parser_new (to_bytes ?f) = Some (Parser_new, [?f], None)"
    using parse_frames_encoded [of "[?f]" index_of] by (simp add: request_frame_def size_eval)
  have allowed: "requests_in index_of (writes_only ?V) (to_bytes ?f)" "requests_in index_of (writes_only ?V) []"
    using parse by (simp_all add: requests_in_def decode_stream_Nil)
      (simp add: decode_stream_def writes_only_def keyword_distinct)
  obtain s1 where s1: "?P Accept (idle_server ?st 0) = Some s1" "tasks s1 = [spawn_connection None]" "sys s1 = sys (idle_server ?st 0)"
    by (simp add: idle_server_def)
  obtain s2 t2 where s2: "?P (Receive 0 (to_bytes ?f)) s1 = Some s2" "tasks s2 = [t2]" "sys s2 = sys (idle_server ?st 0)"
    "received t2 = to_bytes ?f" "frames t2 = [?f]" "conn (session t2) = Connection_new None" "\<not> ended t2"
    using s1(2,3) parse by (simp add: with_task_def perform_receive_def spawn_connection_def session_start_def)
  obtain s3 t3 where s3: "?P (Serve 0 0 None) s2 = Some s3" "tasks s3 = [t3]" "received t3 = to_bytes ?f" "frames t3 = []" "\<not> ended t3"
    using s2 by (simp add: with_task_def perform_serve_def idle_server_def Connection_new_def handle_frame_def outcome_of_def
        process_command_def can_execute_def is_authorized_def keyword_distinct)
  have "?R (idle_server ?st 0) s1" "?R s1 s2" "?R s2 s3"
    using perform_step [OF s1(1)] perform_step [OF s2(1)] perform_step [OF s3(1)] s1(2) s2(2,4) s3(2,3) allowed
    by (simp_all add: spawn_connection_def)
  then have run: "?R\<^sup>*\<^sup>* (idle_server ?st 0) s3" by (rule three_steps)
  have init: "server_init (idle_server ?st 0)"
    by (simp add: server_init_def idle_server_def sys_init_def store_ok_set)
  have holds: "holds_only ?V (store_view (shared (sys (idle_server ?st 0))))"
    by (auto simp: holds_only_def store_view_def idle_server_def Store_set_def Store_new_def from_parts_def split: if_splits)
  from replies_keep_integrity [OF index_of_memchr _ init holds run] s3(2,5) obtain fs m rs where
    "decode_stream index_of (received t3) = Some (fs, m)" "written (conn (session t3)) = concat (map to_bytes rs)"
    "length rs \<le> length fs" "frames t3 = drop (length rs) fs" "list_all2 (reads_only False ?V) (take (length rs) fs) rs"
    by auto
  moreover from this(1) s3(3) parse have "fs = [?f]" by (simp add: decode_stream_def)
  ultimately show ?thesis
    using s3(2-4) by (intro exI [of _ s3] exI [of _ t3] exI [of _ rs]) auto
qed

end
