(* ===== verification/Conformance_Concurrency.thy ===== *)
theory Conformance_Concurrency
  imports Server_Integrity
begin

text \<open>
  The test of concurrent clients (\<open>src/tests/e2e_concurrency.rs\<close>), for any number of clients, any number of
  rounds and every interleaving: clients that only ever send the requests of the test get, for each of
  them and in order, one of the replies the test accepts. The test is a contract of theory
  \<open>Server_Integrity\<close>.
\<close>

definition test_all_commands :: "(Frame \<times> Frame list) list" where
  "test_all_commands =
    [(request_frame ''PING'' [], [SimpleString ''PONG'']),
     (request_frame ''SET'' [''mykey'', ''myvalue''], [SimpleString ''OK'']),
     (request_frame ''GET'' [''mykey''], [Bulk (Some ''myvalue''), Bulk None]),
     (request_frame ''DEL'' [''mykey''], [Integer 0, Integer 1]),
     (request_frame ''QUIT'' [], [])]"

definition accepted :: "Frame \<Rightarrow> Frame \<Rightarrow> bool" where
  "accepted f r \<longleftrightarrow> (\<exists>rs. (f, rs) \<in> set test_all_commands \<and> r \<in> set rs)"

definition test_contents :: "view \<Rightarrow> bool" where
  "test_contents m \<longleftrightarrow> (\<forall>k x. m k = Some x \<longrightarrow> x = (''myvalue'', None))"

lemma visible_test: "test_contents m \<Longrightarrow> visible m t = m"
  by (auto simp: test_contents_def visible_def fun_eq_iff split: option.split)

lemma test_replies:
  "accepted (request_frame ''PING'' []) (SimpleString ''PONG'')"
  "accepted (request_frame ''SET'' [''mykey'', ''myvalue'']) (SimpleString ''OK'')"
  "accepted (request_frame ''GET'' [''mykey'']) (Bulk (Some ''myvalue''))" "accepted (request_frame ''GET'' [''mykey'']) (Bulk None)"
  "accepted (request_frame ''DEL'' [''mykey'']) (Integer 0)" "accepted (request_frame ''DEL'' [''mykey'']) (Integer 1)"
  unfolding accepted_def test_all_commands_def by fastforce+

lemma test_commands:
  "Command_try_from (request_frame ''PING'' []) = Inr PING"
  "Command_try_from (request_frame ''SET'' [''mykey'', ''myvalue'']) = Inr (SET ''mykey'' ''myvalue'')"
  "Command_try_from (request_frame ''GET'' [''mykey'']) = Inr (GET ''mykey'')"
  "Command_try_from (request_frame ''DEL'' [''mykey'']) = Inr (DEL ''mykey'')"
  "Command_try_from (request_frame ''QUIT'' []) = Inr QUIT"
  by (simp_all add: keyword_distinct)

lemma test_request:
  assumes "spec_request None True m t f = (reply, g, m')" "f \<in> set (map fst test_all_commands)" "test_contents m"
  shows "g \<and> test_contents m' \<and> (\<forall>r. reply = Some r \<longrightarrow> accepted f r)"
proof -
  have key: "m ''mykey'' = None \<or> m ''mykey'' = Some (''myvalue'', None)"
    using assms(3) unfolding test_contents_def by (cases "m ''mykey''") auto
  have upd: "test_contents (m(''mykey'' \<mapsto> (''myvalue'', None)))" "test_contents (m(''mykey'' := None))"
    using assms(3) by (auto simp: test_contents_def)
  from assms(2) consider "f = request_frame ''PING'' []" | "f = request_frame ''SET'' [''mykey'', ''myvalue'']"
    | "f = request_frame ''GET'' [''mykey'']" | "f = request_frame ''DEL'' [''mykey'']" | "f = request_frame ''QUIT'' []"
    unfolding test_all_commands_def by (simp only: list.map fst_conv set_simps insert_iff empty_iff) blast
  then show ?thesis
  proof cases
    case 3
    with assms(1,3) key show ?thesis by (auto simp: spec_request_def test_commands spec_op_def visible_test test_replies)
  next
    case 4
    with assms(1,3) key upd show ?thesis by (auto simp: spec_request_def test_commands spec_op_def visible_test test_replies)
  qed (use assms(1,3) upd in \<open>auto simp: spec_request_def test_commands spec_op_def test_replies\<close>)
qed

text \<open>The test is a contract, so it holds of the server when its clients send only requests of the test.\<close>

interpretation test: reply_contract None "\<lambda>f. f \<in> set (map fst test_all_commands)" test_contents accepted
proof
  fix g m t f reply g' m'
  assume "spec_request None g m t f = (reply, g', m')" "None = None \<Longrightarrow> g" "f \<in> set (map fst test_all_commands)" "test_contents m"
  then show "test_contents m' \<and> (\<forall>r. reply = Some r \<longrightarrow> accepted f r)"
    using test_request [of m t f reply g' m'] by (cases g) auto
qed

lemma get_set_del_same_record:
  assumes "\<forall>a b. ct_eq a b \<longleftrightarrow> a = b" "server_init s0" "shared (sys s0) = Store_new"
    and "(\<lambda>s s'. server_step index_of ct_eq expose tempfile_in to_vec None path s s' \<and>
      (\<forall>t \<in> set (tasks s'). requests_in index_of (\<lambda>f. f \<in> set (map fst test_all_commands)) (received t)))\<^sup>*\<^sup>* s0 s"
    and "t \<in> set (tasks s)" "\<not> ended t"
  shows "\<exists>fs malformed rs. decode_stream index_of (received t) = Some (fs, malformed) \<and>
    written (conn (session t)) = concat (map to_bytes rs) \<and> frames t = drop (length rs) fs \<and>
    list_all2 accepted (take (length rs) fs) rs"
proof -
  have "test_contents (store_view (shared (sys s0)))"
    by (simp add: assms(3) test_contents_def store_view_def Store_new_def from_parts_def)
  from test.server_world_ok [OF assms(1,2) this _ assms(4)] obtain w where
    "server_matches index_of None s w" "test.world_ok w" by auto
  from test.server_replies_ok [OF this assms(5)] assms(6) show ?thesis by auto
qed

end
