(* ===== verification/Server_Traces.thy ===== *)
theory Server_Traces
  imports Servers
begin

text \<open>
  Infinite executions of the whole server: under weak fairness of the steps of the server task, a requested
  shutdown comes to its end, whatever clients, sweeper and clock do in between.
\<close>

section \<open>Fairness\<close>

text \<open>
  Weak fairness of a kind of step: if from some point on such a step is possible in every state of the
  execution, then one is taken. The \<open>select!\<close> of the accept loop chooses among its ready branches at
  random, so it does not for ever pass over one that stays ready.
\<close>

definition fair :: "('s \<Rightarrow> 's \<Rightarrow> bool) \<Rightarrow> (nat \<Rightarrow> 's) \<Rightarrow> bool" where
  "fair R \<sigma> \<longleftrightarrow> (\<forall>n. (\<forall>m \<ge> n. \<exists>s'. R (\<sigma> m) s') \<longrightarrow> (\<exists>m \<ge> n. R (\<sigma> m) (\<sigma> (Suc m))))"

lemma fairD: "fair R \<sigma> \<Longrightarrow> (\<And>m. n \<le> m \<Longrightarrow> \<exists>s'. R (\<sigma> m) s') \<Longrightarrow> \<exists>m \<ge> n. R (\<sigma> m) (\<sigma> (Suc m))"
  unfolding fair_def by blast

section \<open>Liveness of the shutdown\<close>

text \<open>
  What is left of a shutdown: the phases to pass, and for every connection that it has to end and to
  be joined.
\<close>

definition task_weight :: "'sec Task \<Rightarrow> nat" where
  "task_weight t = (if ended t then 1 else 2)"

definition shutdown_rank :: "('sec, 'json) Server \<Rightarrow> nat" where
  "shutdown_rank s =
     (let left = sum_list (map task_weight (tasks s)) in
      case phase s of
        Accepting \<Rightarrow> 4 + left | Draining _ \<Rightarrow> 3 + left | Aborting \<Rightarrow> 2 + left | Saving \<Rightarrow> 1 | Finished _ \<Rightarrow> 0)"

definition grace_over :: "('sec, 'json) Server \<Rightarrow> bool" where
  "grace_over s \<longleftrightarrow> (case phase s of Accepting \<Rightarrow> False | Draining deadline \<Rightarrow> deadline \<le> clock (sys s) | _ \<Rightarrow> True)"

text \<open>A step of the server task that brings the shutdown forward: a join, an abort, a change of phase.\<close>

definition server_move ::
  "(u8 \<Rightarrow> bytes \<Rightarrow> nat option) \<Rightarrow> (bytes \<Rightarrow> bytes \<Rightarrow> bool) \<Rightarrow> ('sec \<Rightarrow> bytes) \<Rightarrow>
   (Path \<Rightarrow> Disk \<Rightarrow> io_error + string list) \<Rightarrow> (Snapshot \<Rightarrow> 'json + bytes) \<Rightarrow> 'sec option \<Rightarrow> Path option \<Rightarrow>
   ('sec, 'json) Server \<Rightarrow> ('sec, 'json) Server \<Rightarrow> bool"
where
  "server_move mc ct_eq expose tempfile_in to_vec password path s s' \<longleftrightarrow>
     server_step mc ct_eq expose tempfile_in to_vec password path s s' \<and> shutdown_rank s' < shutdown_rank s \<and>
     (length (tasks s') < length (tasks s) \<or> phase s' \<noteq> phase s \<or> phase s = Aborting)"

text \<open>A step that leaves the accept loop.\<close>

definition stop_move ::
  "(u8 \<Rightarrow> bytes \<Rightarrow> nat option) \<Rightarrow> (bytes \<Rightarrow> bytes \<Rightarrow> bool) \<Rightarrow> ('sec \<Rightarrow> bytes) \<Rightarrow>
   (Path \<Rightarrow> Disk \<Rightarrow> io_error + string list) \<Rightarrow> (Snapshot \<Rightarrow> 'json + bytes) \<Rightarrow> 'sec option \<Rightarrow> Path option \<Rightarrow>
   ('sec, 'json) Server \<Rightarrow> ('sec, 'json) Server \<Rightarrow> bool"
where
  "stop_move mc ct_eq expose tempfile_in to_vec password path s s' \<longleftrightarrow>
     server_step mc ct_eq expose tempfile_in to_vec password path s s' \<and> phase s = Accepting \<and> phase s' \<noteq> Accepting"

lemma weight_update:
  "i < length ts \<Longrightarrow> task_weight t \<le> task_weight (ts ! i) \<Longrightarrow>
     sum_list (map task_weight (ts[i := t])) \<le> sum_list (map task_weight ts)"
  using elem_le_sum_list [of i "map task_weight ts"] by (simp add: map_update sum_list_update)

lemma weight_remove:
  assumes "i < length ts"
  shows "sum_list (map task_weight (take i ts @ drop (Suc i) ts)) < sum_list (map task_weight ts)"
proof -
  have "sum_list (map task_weight ts) =
      sum_list (map task_weight (take i ts @ drop (Suc i) ts)) + task_weight (ts ! i)"
    by (subst id_take_nth_drop [OF assms]) simp
  then show ?thesis by (simp add: task_weight_def)
qed

lemma shutdown_rank_le:
  "server_step mc ct ex tf tv pw path s s' \<Longrightarrow> phase s \<noteq> Accepting \<Longrightarrow> shutdown_rank s' \<le> shutdown_rank s"
proof (induction rule: server_step.induct)
  case (connection i s t st)
  then have "task_weight t \<le> task_weight (tasks s ! i)" by (auto simp: task_weight_def elim: task_stepE)
  with weight_update [OF connection.hyps(1)] show ?case
    by (auto simp: shutdown_rank_def Let_def split: Phase.split)
next
  case (join i s)
  with weight_remove [OF join.hyps(1)] show ?case
    by (auto simp: shutdown_rank_def Let_def split: Phase.split)
next
  case (abort_task s i)
  then have "task_weight ((tasks s ! i)\<lparr>ended := True\<rparr>) \<le> task_weight (tasks s ! i)" by (simp add: task_weight_def)
  with weight_update [OF abort_task.hyps(2)] show ?case
    by (auto simp: shutdown_rank_def Let_def split: Phase.split)
qed (auto simp: shutdown_rank_def Let_def split: Phase.split)

lemma grace_over_step:
  "server_step mc ct ex tf tv pw path s s' \<Longrightarrow> grace_over s \<Longrightarrow> grace_over s'"
proof (induction rule: server_step.induct)
  case (background s y)
  then show ?case using sweeper_clock [of "sys s" y] by (auto simp: grace_over_def split: Phase.splits)
qed (auto simp: grace_over_def split: Phase.splits)

lemma server_moveI:
  assumes "server_step mc ct ex tf tv pw path s s'" "shutdown_rank s' < shutdown_rank s"
    and "length (tasks s') < length (tasks s) \<or> phase s' \<noteq> phase s \<or> phase s = Aborting"
  shows "\<exists>s'. server_move mc ct ex tf tv pw path s s'"
  using assms by (auto simp: server_move_def)

lemma abort_move:
  assumes "phase s = Aborting"
  shows "\<exists>s'. server_move mc ct ex tf tv pw path s s'"
proof (cases "tasks s")
  case Nil
  then show ?thesis
    using server_moveI [OF aborted [OF assms Nil]] assms by (simp add: shutdown_rank_def)
next
  case (Cons t ts)
  then have i: "0 < length (tasks s)" and t: "tasks s ! 0 = t" by simp_all
  show ?thesis
  proof (cases "ended t")
    case True
    with server_moveI [OF join [OF i]] t assms Cons show ?thesis by (simp add: shutdown_rank_def task_weight_def)
  next
    case False
    with server_moveI [OF abort_task [OF assms i]] t assms Cons show ?thesis by (simp add: shutdown_rank_def task_weight_def)
  qed
qed

lemma grace_over_move:
  assumes "grace_over s" "\<forall>r. phase s \<noteq> Finished r"
  shows "\<exists>s'. server_move mc ct ex tf tv pw path s s'"
proof (cases "phase s")
  case (Draining deadline)
  with assms(1) have "deadline \<le> clock (sys s)" by (simp add: grace_over_def)
  from server_moveI [OF timed_out [OF Draining this]] Draining show ?thesis by (simp add: shutdown_rank_def)
next
  case Aborting
  then show ?thesis by (rule abort_move)
next
  case Saving
  fix faults clk
  obtain r d where "final_save tf tv path faults clk (clock (sys s)) (shared (sys s)) (disk s) = (r, d)" by fastforce
  from server_moveI [OF save_archive [OF Saving order_refl this]] Saving show ?thesis by (simp add: shutdown_rank_def)
qed (use assms in \<open>auto simp: grace_over_def\<close>)

lemma finished_stays:
  "server_step mc ct ex tf tv pw path s s' \<Longrightarrow> phase s = Finished r \<Longrightarrow> phase s' = Finished r"
  by (induction rule: server_step.induct) auto

text \<open>What holds from one state of an execution on.\<close>

lemma execution_stable:
  assumes "\<forall>n. \<sigma> (Suc n) = \<sigma> n \<or> step (\<sigma> n) (\<sigma> (Suc n))" and "\<And>s s'. step s s' \<Longrightarrow> P s \<Longrightarrow> P s'"
    and "P (\<sigma> n)" and "n \<le> m"
  shows "P (\<sigma> m)"
  using assms(4)
proof (induction rule: dec_induct)
  case (step m)
  then show ?case using assms(1,2) by metis
qed (rule assms(3))

text \<open>Once the grace period is over, a fair execution runs down the rank.\<close>

lemma fair_finishes:
  assumes run: "\<forall>n. \<sigma> (Suc n) = \<sigma> n \<or> server_step mc ct ex tf tv pw path (\<sigma> n) (\<sigma> (Suc n))"
    and fair: "fair (server_move mc ct ex tf tv pw path) \<sigma>"
    and "grace_over (\<sigma> n)"
  shows "\<exists>m \<ge> n. \<exists>r. phase (\<sigma> m) = Finished r"
  using assms(3)
proof (induction "shutdown_rank (\<sigma> n)" arbitrary: n rule: less_induct)
  case less
  have over: "grace_over (\<sigma> m)" if "n \<le> m" for m
    by (rule execution_stable [where P = grace_over and \<sigma> = \<sigma>, OF run grace_over_step less.prems that])
  have rank: "shutdown_rank (\<sigma> m) \<le> shutdown_rank (\<sigma> n)" if "n \<le> m" for m
  proof -
    have "grace_over (\<sigma> m) \<and> shutdown_rank (\<sigma> m) \<le> shutdown_rank (\<sigma> n)"
    proof (rule execution_stable [where \<sigma> = \<sigma> and
          P = "\<lambda>s. grace_over s \<and> shutdown_rank s \<le> shutdown_rank (\<sigma> n)", OF run _ _ that])
      fix s s' :: "('a, 'b) Server"
      assume st: "server_step mc ct ex tf tv pw path s s'" and s: "grace_over s \<and> shutdown_rank s \<le> shutdown_rank (\<sigma> n)"
      then have "phase s \<noteq> Accepting" by (auto simp: grace_over_def)
      with st s show "grace_over s' \<and> shutdown_rank s' \<le> shutdown_rank (\<sigma> n)"
        using shutdown_rank_le [OF st] grace_over_step [OF st] by auto
    qed (use less.prems in simp)
    then show ?thesis ..
  qed
  show ?case
  proof (rule ccontr)
    assume no: "\<not> (\<exists>m \<ge> n. \<exists>r. phase (\<sigma> m) = Finished r)"
    then have "\<exists>s'. server_move mc ct ex tf tv pw path (\<sigma> m) s'" if "n \<le> m" for m
      using grace_over_move over that by blast
    from fairD [OF fair this] obtain m where m: "n \<le> m" "server_move mc ct ex tf tv pw path (\<sigma> m) (\<sigma> (Suc m))"
      by blast
    then have "shutdown_rank (\<sigma> (Suc m)) < shutdown_rank (\<sigma> n)"
      using rank [OF m(1)] by (simp add: server_move_def)
    from less.hyps [OF this over] m(1) no show False by (meson le_SucI order_trans)
  qed
qed

text \<open>
  Once shutdown is requested, leaving the accept loop is possible as long as it has not happened, so a
  fair execution leaves it, whatever connections come in meanwhile.
\<close>

lemma token_stays: "server_step mc ct ex tf tv pw path s s' \<Longrightarrow> token s \<Longrightarrow> token s'"
  by (induction rule: server_step.induct) auto

lemma accepting_stop_move:
  "phase s = Accepting \<Longrightarrow> token s \<Longrightarrow> \<exists>s'. stop_move mc ct ex tf tv pw path s s'"
  unfolding stop_move_def by (intro exI conjI, rule stop_accepting) simp_all

lemma fair_stops_accepting:
  assumes run: "\<forall>n. \<sigma> (Suc n) = \<sigma> n \<or> server_step mc ct ex tf tv pw path (\<sigma> n) (\<sigma> (Suc n))"
    and fair: "fair (stop_move mc ct ex tf tv pw path) \<sigma>" and "token (\<sigma> 0)"
  shows "\<exists>n. phase (\<sigma> n) \<noteq> Accepting"
proof (rule ccontr)
  assume no: "\<nexists>n. phase (\<sigma> n) \<noteq> Accepting"
  have "token (\<sigma> m)" for m
    by (rule execution_stable [where P = token and \<sigma> = \<sigma>, OF run token_stays assms(3) le0])
  with no have "\<exists>s'. stop_move mc ct ex tf tv pw path (\<sigma> m) s'" for m
    using accepting_stop_move by blast
  from fairD [OF fair this, of 0] no show False by (auto simp: stop_move_def)
qed

text \<open>
  C16. Liveness of the shutdown: in every execution in which shutdown has been requested and time does not
  stop, and which is weakly fair to the step that leaves the accept loop and to the steps of the server
  task that bring the shutdown forward, the server finishes and stays finished, whatever clients,
  sweeper and clock do in between.
\<close>

theorem shutdown_eventually_finishes:
  assumes "\<forall>n. \<sigma> (Suc n) = \<sigma> n \<or> server_step mc ct_eq expose tempfile_in to_vec password path (\<sigma> n) (\<sigma> (Suc n))"
    and "token (\<sigma> 0)"
    and "\<forall>t. \<exists>n. t \<le> clock (sys (\<sigma> n))"
    and "fair (stop_move mc ct_eq expose tempfile_in to_vec password path) \<sigma>"
    and "fair (server_move mc ct_eq expose tempfile_in to_vec password path) \<sigma>"
  shows "\<exists>n r. \<forall>m \<ge> n. phase (\<sigma> m) = Finished r"
proof -
  obtain n where n: "phase (\<sigma> n) \<noteq> Accepting" using fair_stops_accepting [OF assms(1,4,2)] by blast
  have "\<exists>m. grace_over (\<sigma> m)"
  proof (cases "\<exists>d. phase (\<sigma> n) = Draining d")
    case True
    then obtain d where d: "phase (\<sigma> n) = Draining d" ..
    obtain k where k: "d \<le> clock (sys (\<sigma> k))" using assms(3) by blast
    let ?P = "\<lambda>s. grace_over s \<or> phase s = Draining d"
    have "?P (\<sigma> (max n k))"
    proof (rule execution_stable [where P = ?P and \<sigma> = \<sigma>, OF assms(1)])
      fix s s' assume "server_step mc ct_eq expose tempfile_in to_vec password path s s'" "?P s"
      then show "?P s'" by (induction rule: server_step.induct) (auto simp: grace_over_def split: Phase.splits dest: sweeper_clock)
    qed (use d in auto)
    moreover have "d \<le> clock (sys (\<sigma> (max n k)))"
      by (rule execution_stable [where P = "\<lambda>s. d \<le> clock (sys s)" and \<sigma> = \<sigma>, OF assms(1) _ k]) (auto dest: server_step_clock)
    ultimately have "grace_over (\<sigma> (max n k))" by (auto simp: grace_over_def)
    then show ?thesis ..
  next
    case False
    with n have "grace_over (\<sigma> n)" by (auto simp: grace_over_def split: Phase.splits)
    then show ?thesis ..
  qed
  then obtain m r where m: "phase (\<sigma> m) = Finished r" using fair_finishes [OF assms(1,5)] by blast
  have "phase (\<sigma> k) = Finished r" if "m \<le> k" for k
    by (rule execution_stable [where P = "\<lambda>s. phase s = Finished r" and \<sigma> = \<sigma>, OF assms(1) finished_stays m that])
  then show ?thesis by blast
qed

definition stopping_run :: "nat \<Rightarrow> (bytes, string) Server" where
  "stopping_run n =
     (if n = 0 then idle_server Store_new 0\<lparr>token := True\<rparr>
      else if n = 1 then idle_server Store_new 0\<lparr>token := True, phase := Draining (0 + duration_from_secs 3)\<rparr>
      else if n = 2 then idle_server Store_new 0\<lparr>token := True, phase := Saving\<rparr>
      else finished_server\<lparr>sys := (sys finished_server)\<lparr>clock := n - 3\<rparr>\<rparr>)"

lemma stopping_run_phases:
  "phase (stopping_run n) = (if n = 0 then Accepting else if n = 1 then Draining (duration_from_secs 3)
     else if n = 2 then Saving else Finished (Some (Inr ())))"
  "3 \<le> n \<Longrightarrow> clock (sys (stopping_run n)) = n - 3"
  by (simp_all add: stopping_run_def idle_server_def)

lemma stopping_run_step:
  "server_step index_of (=) id fresh_temp json_to_vec None (Some db_path) (stopping_run n) (stopping_run (Suc n))"
proof -
  consider "n = 0" | "n = 1" | "n = 2" | "3 \<le> n" by linarith
  then show ?thesis
  proof cases
    case 3
    have "finished_server\<lparr>sys := (sys finished_server)\<lparr>clock := 0\<rparr>\<rparr> = finished_server" by (simp add: idle_server_def)
    with 3 last_step show ?thesis by (simp add: stopping_run_def)
  next
    case 4
    then have "clock (sys (stopping_run n)) \<le> Suc n - 3"
      and "stopping_run (Suc n) = (stopping_run n)\<lparr>sys := (sys (stopping_run n))\<lparr>clock := Suc n - 3\<rparr>\<rparr>"
      by (simp_all add: stopping_run_def)
    then show ?thesis using time [of "stopping_run n"] by simp
  qed (use idle_steps(2,3) [where st = Store_new and now = 0] in \<open>simp_all add: stopping_run_def\<close>)
qed

theorem shutdown_eventually_finishes_witness:
  "\<exists>n r. \<forall>m \<ge> n. phase (stopping_run m) = Finished r"
proof (rule shutdown_eventually_finishes [where mc = index_of and ct_eq = "(=)" and expose = id and tempfile_in = fresh_temp
      and to_vec = json_to_vec and password = None and path = "Some db_path"])
  show "\<forall>n. stopping_run (Suc n) = stopping_run n \<or>
      server_step index_of (=) id fresh_temp json_to_vec None (Some db_path) (stopping_run n) (stopping_run (Suc n))"
    using stopping_run_step by blast
  show "token (stopping_run 0)" by (simp add: stopping_run_def)
  show "\<forall>t. \<exists>n. t \<le> clock (sys (stopping_run n))"
  proof
    fix t show "\<exists>n. t \<le> clock (sys (stopping_run n))"
      using stopping_run_phases(2) [of "t + 3"] by (intro exI [of _ "t + 3"]) simp
  qed
  have "\<not> stop_move index_of (=) id fresh_temp json_to_vec None (Some db_path) (stopping_run m) s'" if "3 \<le> m" for m s'
    using that by (simp add: stop_move_def stopping_run_phases(1))
  then show "fair (stop_move index_of (=) id fresh_temp json_to_vec None (Some db_path)) stopping_run"
    unfolding fair_def by (meson nat_le_linear)
  have "\<not> server_move index_of (=) id fresh_temp json_to_vec None (Some db_path) (stopping_run m) s'" if "3 \<le> m" for m s'
    using that by (simp add: server_move_def shutdown_rank_def stopping_run_phases(1))
  then show "fair (server_move index_of (=) id fresh_temp json_to_vec None (Some db_path)) stopping_run"
    unfolding fair_def by (meson nat_le_linear)
qed

end
