(* ===== verification/Spec2Isabelle.thy ===== *)
theory Spec2Isabelle
  imports Conformance_Storage Conformance_Server Conformance_Concurrency Server_Traces
begin

text \<open>
  \<^bold>\<open>redlike, a key-value server that speaks RESP.\<close> This development models the Rust crate under \<open>src/src\<close> and proves
  it correct. A client sends frames over TCP; the parser cuts the byte stream into frames, a frame
  is decoded into a command, the command runs on the store shared by all connections, and the reply
  is encoded and written back. Keys may have deadlines, which a background task sweeps. On shutdown
  the store is saved to an archive file, from which the next start loads it.

  \<^bold>\<open>Theories\<close>, in the order they build on each other:

  \<^item> \<open>Rust_Prelude\<close>: bytes, machine integers, line ends, decimal numbers and their round trips; the collections of
    evaluation rules for sizes, times and files.
  \<^item> \<open>Rust_Std\<close>: what the code uses of the standard library: UTF-8, \<open>Vec\<close> with its capacity, hash maps and
    binary heaps (as interfaces \<open>hash_map\<close> and \<open>min_heap\<close> with their instances), instants and durations, the
    interfaces \<open>inductive_invariant\<close> and \<open>forward_simulation\<close> of transition systems, \<open>incremental_decoder\<close> of stream decoders and
    \<open>timed_refinement\<close> of histories of timed operations.
  \<^item> \<open>Resp_Frame\<close> (\<open>frame.rs\<close>): frames and \<open>to_bytes\<close>.
  \<^item> \<open>Resp_Parser\<close> (\<open>parser.rs\<close>): \<open>Parser\<close> with its state, buffer and stack of open arrays; \<open>parse\<close> is the outer
    loop, \<open>try_parse_loop\<close> the inner one, with one definition \<open>step_...\<close> per arm of its \<open>match\<close>. Shown: parsing
    inverts encoding (C1), does not depend on how the stream is cut (C2), errors are terminal (C4),
    the arithmetic stays in range (C5), and which header panics (C6).
  \<^item> \<open>Commands\<close> (\<open>error.rs\<close>, \<open>command.rs\<close>): decoding of requests, round trip (C7), each error exactly when it is
    due (C8), the name of a command.
  \<^item> \<open>Kv_Store\<close> (\<open>store.rs\<close>): the store and its operations as functions of the clock reading they make, the
    invariant \<open>store_ok\<close>, the abstract view \<open>live\<close>, the interface \<open>kv_store\<close>, and what each operation does (C10 to C15).
  \<^item> \<open>Sweeper\<close> (\<open>sweep_loop\<close>): histories of operations and sweeps refine a map with deadlines (C17); the
    background task as a step relation interleaved with clients and the clock: no wake-up is lost (C18),
    expired values go (C19), every deadline is tracked (C20).
  \<^item> \<open>Connections\<close> (\<open>connection.rs\<close>): the handler and its loop \<open>run\<close>. Shown: isolation of unauthenticated
    connections (C21), authentication (C22), independence of the reads (C23), one reply of the right kind
    per request (C24), and the end-to-end statement from bytes to bytes over the abstract map (C25).
  \<^item> \<open>Snapshots\<close> (\<open>store.rs\<close>): \<open>dump\<close> and \<open>restore\<close> with two clocks and a serializer (interface \<open>snapshot_codec\<close>); which snapshots load (C26), the round trip
    with its error bound (C27), and the deadline that spoils a dump (C28).
  \<^item> \<open>Snapshot_Json\<close>: a printer and a strict reader of the JSON of the archive files, an instance of \<open>snapshot_codec\<close>.
  \<^item> \<open>Archives\<close> (\<open>archive.rs\<close>): a file system with what the process sees and what is on disk. Saving is atomic
    under crashes (C29), is read back (C30), fails for a bare file name (C31), and a restart after a crash
    finds the old or the new archive (C32).
  \<^item> \<open>Configs\<close> (\<open>config.rs\<close>): the declared arguments with their flags, environment variables, defaults and value
    parsers, the configuration they give, compared with the documented options (C33), and its redacted debug output.
  \<^item> \<open>Servers\<close> (\<open>server.rs\<close>, \<open>main.rs\<close>): the whole server as a transition system over the system of \<open>Sweeper\<close>:
    accepting, serving, draining, aborting, saving; a task also records the bytes it received. Nothing is lost on shutdown (C34), shutdown is final (C35)
    and completes (C36), the sweeper keeps up (C37), start-up establishes the invariant; without the
    password no connection changes the data in any execution (C3). \<open>main\<close> is a function of what each of its calls returns.
  \<^item> \<open>Server_Traces\<close>: infinite executions of the server; a requested shutdown finishes in every weakly fair one (C16).
  \<^item> \<open>Server_Runs\<close>: the step relation as a function of explicit moves, with lemmas that moves and steps are the same, so
    that executions of the whole server can be evaluated.
  \<^item> \<open>Server_Spec\<close>: what the server promises, as a machine of clients, a clock and one map with deadlines that
    serves each request in one step and decodes the whole stream a client has sent at once. The server with
    parser, reads, tasks, heap and sweeper is simulated by it, with the same bytes received and written (C9).
  \<^item> \<open>Server_Integrity\<close>: contracts between requests and replies (interface \<open>reply_contract\<close>), proved on \<open>Server_Spec\<close> and
    carried over to the server: replies in order and of the right kind, values only from writes (C38).
  \<^item> \<open>Conformance\<close>, \<open>Conformance_Storage\<close>: the repository's unit tests of encoder, decoder, parser and connections, and of
    store, snapshots, archive and configuration as tables, with lemmas that the model passes them.
  \<^item> \<open>Conformance_Server\<close>: the end-to-end tests (\<open>src/tests\<close>) as runs of the whole server, from \<open>run_server\<close> to the
    archive that a restart loads.
  \<^item> \<open>Conformance_Concurrency\<close>: the test of concurrent clients, for any number of them and every interleaving, as an
    instance of \<open>reply_contract\<close>.
  \<^item> This theory: restart (C39) and exit status (C40), which span store, archive, server and program.

  \<^bold>\<open>How the model reads.\<close> A struct is a record, an enum a datatype, a \<open>Result\<close> a sum with the error on the left,
  a panic \<open>None\<close>. \<open>u64\<close> and \<open>i64\<close> are 64-bit words, \<open>usize\<close> and the \<open>u128\<close> milliseconds natural numbers with their bounds written out.
  Every clock reading, every result of a system call and everything other tasks do between two steps is an
  argument or a choice of a step relation, so the theorems hold for all of them. A store operation holds its
  locks from its first to its last access, so it is one step; the sweep has two critical sections and is two.
  \<open>del\<close> reads the clock before it takes its locks: in \<open>Servers\<close> its reading may be old, and C13 says what that can
  change; C25 is about readings in the order of the operations. Likewise the final snapshot may use an old reading.
  Loops are total functions with a termination measure (the parser's is the unread input and the state);
  there is no fuel. The crates the code calls are parameters with their documented behaviour as named
  hypotheses: \<open>memchr\<close> (\<open>memchr_law\<close>), \<open>constant_time_eq\<close> (decides equality), \<open>secrecy\<close> (exposes what it was given),
  \<open>serde_json\<close> (\<open>snapshot_codec\<close>: reads back what it wrote), \<open>tempfile\<close> (\<open>temp_law\<close>: a fresh name), \<open>clap\<close> (\<open>clap_law\<close>: on
  plain command lines the command line comes before the environment and that before the default).

  The request to shut down that \<open>main\<close> makes after a signal is the step \<open>cancel\<close> of the server, which may happen at any
  time. Fairness is assumed in C16 only.

  \<^bold>\<open>Not modelled.\<close> Log output; running out of memory below the capacity limit of \<open>Vec\<close>; the text of I/O errors; bytes of a reply that reached the peer before its write
  failed; socket options and addresses, the text of IPv6 addresses; arguments that are not UTF-8 and \<open>clap\<close> on other
  than plain command lines (help, joined flags); symbolic links and \<open>..\<close> in archive paths; the
  timeouts of the end-to-end tests and the sockets under them; the container, deployment and CI files.
\<close>

section \<open>The life of the data\<close>

text \<open>
  C39. Restart: after a server with an archive has finished without an error, a server started on the
  same disk loads the snapshot of a store that shows exactly what the first one showed at its end,
  and starts with the store this snapshot gives, or with the error of loading this snapshot.
\<close>

theorem restart_loads_last_store:
  assumes "snapshot_codec to_vec from_slice"
    and "temp_ok tempfile_in (Some p)" and "archive_path config = Some p"
    and "reach server_init (server_step mc ct_eq expose tempfile_in to_vec password (Some p)) s"
    and "phase s = Finished (Some (Inr ()))"
  shows "\<exists>st now clk snap. now \<le> clock (sys s) \<and> to_snapshot st now clk = Some snap \<and>
    (\<forall>t \<ge> clock (sys s). live st t = live (shared (sys s)) t) \<and>
    run_server from_slice None None now' clk' None (disk s) config =
      map_option (map_sum (\<lambda>e. Archive (InvalidArchive (InvalidData e))) (\<lambda>st'. server_start st' (mono now') (disk s)))
        (from_snapshot now' clk' snap)"
proof -
  have "archived to_vec (Some p) s"
    using srv.inv_reach [OF assms(4)] assms(2,5) by (simp add: server_inv_def)
  then obtain st now clk snap b where le: "now \<le> clock (sys s)" and st: "to_snapshot st now clk = Some snap" "to_vec snap = Inr b"
    "fs_read None (disk s) p = Inr b" "\<forall>t \<ge> clock (sys s). live (shared (sys s)) t = live st t"
    by (auto simp: archived_def)
  have "from_slice b = Inr snap" using snapshot_codec.read_back [OF assms(1) st(2)] .
  then have "run_server from_slice None None now' clk' None (disk s) config =
      map_option (map_sum (\<lambda>e. Archive (InvalidArchive (InvalidData e))) (\<lambda>st'. server_start st' (mono now') (disk s)))
        (from_snapshot now' clk' snap)"
    using st(3) assms(3)
    by (simp add: run_server_def load_def restore_def option.map_comp sum.map_comp o_def
        RestoreError_from_SnapshotError_def)
  with le st(1,4) show ?thesis by metis
qed

theorem restart_loads_last_store_witness:
  "\<exists>st now clk snap. now \<le> 0 \<and> to_snapshot st now clk = Some snap \<and> (\<forall>t. live st t = live Store_new t) \<and>
     run_server json_from_slice None None \<lparr>sys_time = Some 0, mono = 0\<rparr> (\<lambda>_. \<lparr>sys_time = Some 0, mono = 0\<rparr>) None
       (snd (final_save fresh_temp json_to_vec (Some db_path) no_faults (\<lambda>_. \<lparr>sys_time = Some 0, mono = 0\<rparr>) 0
          Store_new (disk_with None)))
       \<lparr>address = (), port = 6379, archive_path = Some db_path, config_password = (None :: bytes option)\<rparr> =
     map_option (map_sum (\<lambda>e. Archive (InvalidArchive (InvalidData e) :: string ArchiveError)) (\<lambda>st'. server_start st' 0
       (snd (final_save fresh_temp json_to_vec (Some db_path) no_faults (\<lambda>_. \<lparr>sys_time = Some 0, mono = 0\<rparr>) 0
          Store_new (disk_with None)))))
       (from_snapshot \<lparr>sys_time = Some 0, mono = 0\<rparr> (\<lambda>_. \<lparr>sys_time = Some 0, mono = 0\<rparr>) snap)"
proof -
  let ?config = "\<lparr>address = (), port = 6379, archive_path = Some db_path, config_password = (None :: bytes option)\<rparr>"
  from restart_loads_last_store [where config = ?config and now' = "\<lparr>sys_time = Some 0, mono = 0\<rparr>"
      and clk' = "\<lambda>_. \<lparr>sys_time = Some 0, mono = 0\<rparr>", OF json.snapshot_codec_axioms temp_ok_fresh _ reach_finished]
  show ?thesis by (simp add: idle_server_def)
qed

text \<open>
  C40. Exit status: when the program returns without an error, there was no log subscriber, the arguments
  gave a configuration, the server started with it, and its task ended in a state without open
  connections; with an archive configured, the archive then holds the serialized snapshot, taken at a
  time already past, of a store that shows what the shared store shows.
\<close>

theorem main_success_archived:
  assumes "config = get_config clap_parse secret_new args"
    and "\<forall>c. config = Some c \<longrightarrow> temp_ok tempfile_in (archive_path c)"
    and "\<forall>c s0. config = Some c \<and> run_server from_slice bind_fault addr_fault now clk read_fault d c = Some (Inr s0) \<longrightarrow>
      (\<exists>s. (server_step mc ct_eq expose tempfile_in to_vec (config_password c) (archive_path c))\<^sup>*\<^sup>* s0 s \<and> phase s = Finished handle)"
    and "main subscriber_set config (run_server from_slice bind_fault addr_fault now clk read_fault d)
      (wait_for_shutdown_signal register event) handle = Some (Inr ())"
  shows "\<exists>raw s0 s. \<not> subscriber_set \<and> clap_parse args = Inr raw \<and> register = None \<and>
    run_server from_slice bind_fault addr_fault now clk read_fault d (from_raw secret_new raw) = Some (Inr s0) \<and>
    (server_step mc ct_eq expose tempfile_in to_vec (config_password (from_raw secret_new raw)) (raw_archive_path raw))\<^sup>*\<^sup>* s0 s \<and>
    phase s = Finished (Some (Inr ())) \<and> tasks s = [] \<and>
    (\<forall>p. raw_archive_path raw = Some p \<longrightarrow>
      (\<exists>st now clk snap b. now \<le> clock (sys s) \<and> to_snapshot st now clk = Some snap \<and> to_vec snap = Inr b \<and>
         fs_read None (disk s) p = Inr b \<and> (\<forall>t \<ge> clock (sys s). live (shared (sys s)) t = live st t)))"
proof -
  from assms(4) obtain c s0 where c: "\<not> subscriber_set" "config = Some c" "handle = Some (Inr ())"
    and s0: "run_server from_slice bind_fault addr_fault now clk read_fault d c = Some (Inr s0)"
    and reg: "register = None"
    by (auto simp: main_def wait_for_shutdown_signal_def split: if_splits option.splits sum.splits)
  from assms(1) c(2) obtain raw where raw: "clap_parse args = Inr raw" "c = from_raw secret_new raw"
    by (auto simp: get_config_def split: sum.splits)
  have path: "archive_path c = raw_archive_path raw" by (simp add: raw(2) from_raw_def)
  from assms(3) c s0 obtain s where
    s: "(server_step mc ct_eq expose tempfile_in to_vec (config_password c) (archive_path c))\<^sup>*\<^sup>* s0 s"
    "phase s = Finished (Some (Inr ()))" by blast
  have "server_inv tempfile_in to_vec (archive_path c) s0" using run_server_Inr [OF s0] srv.inv_init by blast
  then have inv: "server_inv tempfile_in to_vec (archive_path c) s" using s(1) by (rule srv.inv_steps)
  have "tasks s = []" using inv s(2) by (simp add: server_inv_def phase_ok_def)
  moreover have "archived to_vec (raw_archive_path raw) s"
    using inv assms(2) c(2) s(2) by (simp add: server_inv_def path)
  ultimately show ?thesis
    using c(1) raw(1) reg s0 s unfolding archived_def path unfolding raw(2) by blast
qed

theorem main_success_archived_witness:
  "\<exists>s. tasks s = [] \<and> (\<exists>st now clk snap b. now \<le> clock (sys s) \<and> to_snapshot st now clk = Some snap \<and> json_to_vec snap = Inr b \<and>
     fs_read None (disk (s :: (bytes, string) Server)) db_path = Inr b)"
proof -
  let ?raw = "\<lparr>raw_address = (), raw_port = 6379, raw_archive_path = Some db_path, raw_auth_password = None\<rparr>"
  let ?run = "run_server json_from_slice None None \<lparr>sys_time = Some 0, mono = 0\<rparr> (\<lambda>_. \<lparr>sys_time = Some 0, mono = 0\<rparr>) None
      (disk_with None) :: (unit, bytes) Config \<Rightarrow> _"
  let ?config = "get_config (\<lambda>_ :: unit. Inr ?raw :: unit + unit RawConfig) id ()"
  have config: "?config = Some (from_raw id ?raw)" by (simp add: get_config_def)
  have start: "?run (from_raw id ?raw) = Some (Inr (idle_server Store_new 0))"
    by (simp add: from_raw_def run_server_def load_def fs_eval db_path_def server_start_def idle_server_def)
  have temp: "\<forall>c. ?config = Some c \<longrightarrow> temp_ok fresh_temp (archive_path c)"
    unfolding config by (simp add: from_raw_def temp_ok_fresh)
  have task: "\<forall>c s0. ?config = Some c \<and> ?run c = Some (Inr s0) \<longrightarrow>
      (\<exists>s. (server_step index_of (=) id fresh_temp json_to_vec (config_password c) (archive_path c))\<^sup>*\<^sup>* s0 s \<and>
        phase s = Finished (Some (Inr ())))"
  proof (intro allI impI)
    fix c s0 assume "?config = Some c \<and> ?run c = Some (Inr s0)"
    then have "c = from_raw id ?raw" "s0 = idle_server Store_new 0" using config start by auto
    then show "\<exists>s. (server_step index_of (=) id fresh_temp json_to_vec (config_password c) (archive_path c))\<^sup>*\<^sup>* s0 s \<and>
        phase s = Finished (Some (Inr ()))"
      using finished_steps by (intro exI [of _ finished_server]) (simp add: from_raw_def)
  qed
  have "main False ?config ?run (wait_for_shutdown_signal None SigTerm) (Some (Inr ())) = Some (Inr ())"
    unfolding config by (simp add: main_def wait_for_shutdown_signal_def start)
  from main_success_archived [OF refl temp task this] show ?thesis by fastforce
qed

end
